theory Spec2Isabelle
  imports Complex_Main "HOL-Library.Sublist"
begin

section \<open>The multi-provider LLM client of \<^verbatim>\<open>services/freeLLMService.ts\<close>\<close>

text \<open>
  The development embeds the class \<^verbatim>\<open>FreeLLMService\<close>: the provider registry, the
  credential check, the fixed-window rate limiter, the response parser with its three
  regular expressions, and the orchestrator \<^verbatim>\<open>processMessage\<close> with its fallback pass.

  What lies outside the program is a parameter of the model, the record \<open>world\<close>
  declared below: the values that successive calls of \<^verbatim>\<open>Date.now()\<close> return, the way
  each HTTP exchange ends, and the values of \<^verbatim>\<open>Math.random()\<close>. Every exchange is
  taken to settle (the source sets no timeout, and a request that never settles is not
  a value of the model).
\<close>

subsection \<open>JavaScript strings\<close>

text \<open>
  A string is a list of 8-bit characters, read as the UTF-8 bytes of the text.
  \<^verbatim>\<open>String.prototype.trim\<close> is modelled on all the code points it strips, each by
  its UTF-8 encoding. Letter case and the classes of \<^verbatim>\<open>RegExp\<close> are modelled on single
  bytes, where they agree with the source on ASCII text.
\<close>

text \<open>
  The code points that are \<^verbatim>\<open>WhiteSpace\<close> or \<^verbatim>\<open>LineTerminator\<close> of the language:
  U+0009 to U+000D, U+0020, U+00A0, U+1680, U+2000 to U+200A, U+2028, U+2029, U+202F,
  U+205F, U+3000 and U+FEFF.
\<close>

definition whiteSpace :: "string list" where
  "whiteSpace =
     [[CHR 0x09], [CHR 0x0A], [CHR 0x0B], [CHR 0x0C], [CHR 0x0D], [CHR 0x20],
      [CHR 0xC2, CHR 0xA0],
      [CHR 0xE1, CHR 0x9A, CHR 0x80],
      [CHR 0xE2, CHR 0x80, CHR 0x80], [CHR 0xE2, CHR 0x80, CHR 0x81],
      [CHR 0xE2, CHR 0x80, CHR 0x82], [CHR 0xE2, CHR 0x80, CHR 0x83],
      [CHR 0xE2, CHR 0x80, CHR 0x84], [CHR 0xE2, CHR 0x80, CHR 0x85],
      [CHR 0xE2, CHR 0x80, CHR 0x86], [CHR 0xE2, CHR 0x80, CHR 0x87],
      [CHR 0xE2, CHR 0x80, CHR 0x88], [CHR 0xE2, CHR 0x80, CHR 0x89],
      [CHR 0xE2, CHR 0x80, CHR 0x8A],
      [CHR 0xE2, CHR 0x80, CHR 0xA8], [CHR 0xE2, CHR 0x80, CHR 0xA9],
      [CHR 0xE2, CHR 0x80, CHR 0xAF],
      [CHR 0xE2, CHR 0x81, CHR 0x9F],
      [CHR 0xE3, CHR 0x80, CHR 0x80],
      [CHR 0xEF, CHR 0xBB, CHR 0xBF]]"

text \<open>Removing from the start of a string every leading occurrence of the given words.\<close>

function stripStart :: "string list \<Rightarrow> string \<Rightarrow> string" where
  "stripStart ws s =
     (case List.find (\<lambda>w. w \<noteq> [] \<and> prefix w s) ws of
        None \<Rightarrow> s
      | Some w \<Rightarrow> stripStart ws (drop (length w) s))"
  by pat_completeness auto
termination
  by (relation "measure (\<lambda>(ws, s). length s)") (auto simp: find_Some_iff prefix_def)

declare stripStart.simps [simp del]

text \<open>\<^verbatim>\<open>s.trim()\<close>: white space is removed at the start and at the end.\<close>

definition trim :: "string \<Rightarrow> string" where
  "trim s = rev (stripStart (map rev whiteSpace) (rev (stripStart whiteSpace s)))"

text \<open>The white space of one byte, for the classes of the matcher.\<close>

definition isWhiteSpace :: "char \<Rightarrow> bool" where
  "isWhiteSpace c =
     (c = CHR 0x09 \<or> c = CHR 0x0A \<or> c = CHR 0x0B \<or> c = CHR 0x0C \<or> c = CHR 0x0D \<or> c = CHR 0x20)"

definition lowerChar :: "char \<Rightarrow> char" where
  "lowerChar c =
     (case map_of (zip ''ABCDEFGHIJKLMNOPQRSTUVWXYZ'' ''abcdefghijklmnopqrstuvwxyz'') c of
        None \<Rightarrow> c
      | Some l \<Rightarrow> l)"

definition toLowerCase :: "string \<Rightarrow> string" where
  "toLowerCase s = map lowerChar s"

text \<open>\<^verbatim>\<open>s.includes(t)\<close>: \<open>t\<close> starts at some position of \<open>s\<close>.\<close>

fun str_includes :: "string \<Rightarrow> string \<Rightarrow> bool" where
  "str_includes [] t = (t = [])"
| "str_includes (x # s) t = (prefix t (x # s) \<or> str_includes s t)"

text \<open>\<^verbatim>\<open>s.split(d)\<close> for a one-character separator; the result is never empty.\<close>

fun split :: "char \<Rightarrow> string \<Rightarrow> string list" where
  "split d [] = [[]]"
| "split d (x # s) =
     (if x = d then [] # split d s
      else (case split d s of [] \<Rightarrow> [[x]] | r # rs \<Rightarrow> (x # r) # rs))"

text \<open>\<^verbatim>\<open>xs.join(sep)\<close>.\<close>

fun join :: "string \<Rightarrow> string list \<Rightarrow> string" where
  "join sep [] = []"
| "join sep [x] = x"
| "join sep (x # y # ys) = x @ sep @ join sep (y # ys)"

text \<open>
  \<^verbatim>\<open>x || d\<close> for a string \<open>x\<close> that may be undefined: the empty string is falsy as
  well.
\<close>

fun orElse :: "string option \<Rightarrow> string \<Rightarrow> string" where
  "orElse None d = d"
| "orElse (Some s) d = (if s = [] then d else s)"

subsection \<open>Regular expressions\<close>

text \<open>
  The backtracking matcher of \<^verbatim>\<open>RegExp\<close>, for the constructs the three patterns of
  the parser use. A matcher takes the rest of the input, the captures made so far and
  a continuation, and tries its alternatives in the order of the language definition:
  a greedy star tries one more iteration before it tries to stop, a lazy star the
  other way round, and an iteration that consumes nothing is rejected.
\<close>

type_synonym caps = "nat \<Rightarrow> string option"

datatype re =
    Sym "char \<Rightarrow> bool"
  | Eps
  | Seq re re
  | Alt re re
  | Star re
  | Lazy re
  | Group nat re

fun m :: "re \<Rightarrow> string \<Rightarrow> caps \<Rightarrow> (string \<Rightarrow> caps \<Rightarrow> (caps \<times> string) option)
    \<Rightarrow> (caps \<times> string) option" where
  "m (Sym P) s c k = (case s of [] \<Rightarrow> None | x # t \<Rightarrow> if P x then k t c else None)"
| "m Eps s c k = k s c"
| "m (Seq a b) s c k = m a s c (\<lambda>s' c'. m b s' c' k)"
| "m (Alt a b) s c k = (case m a s c k of Some r \<Rightarrow> Some r | None \<Rightarrow> m b s c k)"
| "m (Star a) s c k =
     (case m a s c (\<lambda>s' c'. if length s' < length s then m (Star a) s' c' k else None) of
        Some r \<Rightarrow> Some r
      | None \<Rightarrow> k s c)"
| "m (Lazy a) s c k =
     (case k s c of
        Some r \<Rightarrow> Some r
      | None \<Rightarrow> m a s c (\<lambda>s' c'. if length s' < length s then m (Lazy a) s' c' k else None))"
| "m (Group n a) s c k = m a s c (\<lambda>s' c'. k s' (c'(n \<mapsto> take (length s - length s') s)))"

text \<open>
  How a greedy run of one-character matches gives characters back: the characters of
  the run, last first, are returned to the rest one by one until the continuation
  succeeds. The matcher does this for a star over a character class (lemma \<open>m_Star_Sym\<close>
  below).
\<close>

fun retreat :: "string \<Rightarrow> string \<Rightarrow> caps \<Rightarrow> (string \<Rightarrow> caps \<Rightarrow> (caps \<times> string) option)
    \<Rightarrow> (caps \<times> string) option" where
  "retreat [] rest c k = None"
| "retreat (x # run) rest c k =
     (case k (x # rest) c of Some r \<Rightarrow> Some r | None \<Rightarrow> retreat run (x # rest) c k)"

text \<open>A match that starts at the first character: the captures and the rest.\<close>

definition exec_here :: "re \<Rightarrow> string \<Rightarrow> (caps \<times> string) option" where
  "exec_here r s = m r s (\<lambda>n. None) (\<lambda>s' c. Some (c, s'))"

text \<open>
  \<^verbatim>\<open>s.match(r)\<close> without the flag \<^verbatim>\<open>g\<close>: the leftmost match, as the matched text and
  its captures; \<open>None\<close> is \<^verbatim>\<open>null\<close>.
\<close>

fun match_first :: "re \<Rightarrow> string \<Rightarrow> (string \<times> caps) option" where
  "match_first r [] =
     (case exec_here r [] of None \<Rightarrow> None | Some (c, rest) \<Rightarrow> Some ([], c))"
| "match_first r (x # t) =
     (case exec_here r (x # t) of
        None \<Rightarrow> match_first r t
      | Some (c, rest) \<Rightarrow> Some (take (length (x # t) - length rest) (x # t), c))"

text \<open>
  \<^verbatim>\<open>s.match(r)\<close> with the flag \<^verbatim>\<open>g\<close>: the matched texts from left to right, each
  search starting where the last match ended (one character further after an empty
  match). The second argument counts the characters still covered by the last match.
  The empty list is \<^verbatim>\<open>null\<close>.
\<close>

fun match_all_from :: "re \<Rightarrow> nat \<Rightarrow> string \<Rightarrow> string list" where
  "match_all_from r skip [] =
     (if skip = 0 then (case exec_here r [] of None \<Rightarrow> [] | Some (c, rest) \<Rightarrow> [[]]) else [])"
| "match_all_from r skip (x # t) =
     (if skip = 0 then
        (case exec_here r (x # t) of
           None \<Rightarrow> match_all_from r 0 t
         | Some (c, rest) \<Rightarrow>
             take (length (x # t) - length rest) (x # t)
               # match_all_from r (length (x # t) - length rest - 1) t)
      else match_all_from r (skip - 1) t)"

definition match_all :: "re \<Rightarrow> string \<Rightarrow> string list" where
  "match_all r s = match_all_from r 0 s"

text \<open>The pieces of the pattern syntax.\<close>

definition chr :: "char \<Rightarrow> re" where
  "chr a = Sym (\<lambda>x. x = a)"

text \<open>One character under the flag \<^verbatim>\<open>i\<close>.\<close>

definition chr_i :: "char \<Rightarrow> re" where
  "chr_i a = Sym (\<lambda>x. lowerChar x = lowerChar a)"

definition seqs :: "re list \<Rightarrow> re" where
  "seqs rs = foldr Seq rs Eps"

definition lit_i :: "string \<Rightarrow> re" where
  "lit_i s = seqs (map chr_i s)"

text \<open>The text starts with the literal, letter case aside: what \<open>lit_i\<close> accepts.\<close>

fun starts_with_i :: "string \<Rightarrow> string \<Rightarrow> bool" where
  "starts_with_i [] s = True"
| "starts_with_i (a # l) [] = False"
| "starts_with_i (a # l) (x # t) = (if lowerChar x = lowerChar a then starts_with_i l t else False)"

definition Plus :: "re \<Rightarrow> re" where
  "Plus a = Seq a (Star a)"

definition Opt :: "re \<Rightarrow> re" where
  "Opt a = Alt a Eps"

text \<open>\<^verbatim>\<open>\s\<close>, \<^verbatim>\<open>\d\<close>, \<^verbatim>\<open>.\<close>, \<^verbatim>\<open>[\s\S]\<close> and a negated one-character class.\<close>

definition space :: re where
  "space = Sym isWhiteSpace"

definition digit :: re where
  "digit = Sym (\<lambda>x. x \<in> set ''0123456789'')"

definition dot :: re where
  "dot = Sym (\<lambda>x. x \<noteq> CHR 0x0A \<and> x \<noteq> CHR 0x0D)"

definition anychar :: re where
  "anychar = Sym (\<lambda>x. True)"

definition notchr :: "char \<Rightarrow> re" where
  "notchr a = Sym (\<lambda>x. x \<noteq> a)"

text \<open>
  \<^verbatim>\<open>/Part:\s*([^(]+)\s*\(Part #:\s*([^)]+)\)\s*-\s*([^\n]+)/i\<close>
\<close>

definition part_re :: re where
  "part_re = seqs
     [lit_i ''Part:'', Star space, Group 1 (Plus (notchr CHR ''('')), Star space,
      lit_i ''(Part #:'', Star space, Group 2 (Plus (notchr CHR '')'')), chr CHR '')'',
      Star space, chr CHR ''-'', Star space, Group 3 (Plus (notchr CHR 0x0A))]"

text \<open>
  \<^verbatim>\<open>/Fault Code:\s*([^\s]+)\s*-\s*([^\n]+)[\s\S]*?Severity:\s*([^\n]+)[\s\S]*?Possible Causes:\s*([^\n]+)[\s\S]*?Recommended Actions:\s*([^\n]+)/i\<close>
\<close>

definition fault_re :: re where
  "fault_re = seqs
     [lit_i ''Fault Code:'', Star space, Group 1 (Plus (Sym (\<lambda>x. \<not> isWhiteSpace x))),
      Star space, chr CHR ''-'', Star space, Group 2 (Plus (notchr CHR 0x0A)),
      Lazy anychar, lit_i ''Severity:'', Star space, Group 3 (Plus (notchr CHR 0x0A)),
      Lazy anychar, lit_i ''Possible Causes:'', Star space, Group 4 (Plus (notchr CHR 0x0A)),
      Lazy anychar, lit_i ''Recommended Actions:'', Star space,
      Group 5 (Plus (notchr CHR 0x0A))]"

text \<open>
  \<^verbatim>\<open>/(?:Steps?|Actions?):\s*\n((?:\d+\..*\n?)+)/i\<close>
\<close>

definition steps_re :: re where
  "steps_re = seqs
     [Alt (Seq (lit_i ''Step'') (Opt (chr_i CHR ''s'')))
          (Seq (lit_i ''Action'') (Opt (chr_i CHR ''s''))),
      chr CHR '':'', Star space, chr CHR 0x0A,
      Group 1 (Plus (seqs [Plus digit, chr CHR ''.'', Star dot, Opt (chr CHR 0x0A)]))]"

text \<open>
  \<^verbatim>\<open>/^\d+\.\s*/\<close>, which can only match at the start of the string.
\<close>

definition numbering_re :: re where
  "numbering_re = seqs [Plus digit, chr CHR ''.'', Star space]"

text \<open>\<^verbatim>\<open>step.replace(/^\d+\.\s*/, '')\<close>.\<close>

definition strip_numbering :: "string \<Rightarrow> string" where
  "strip_numbering step = (case exec_here numbering_re step of None \<Rightarrow> step | Some (c, rest) \<Rightarrow> rest)"

subsection \<open>The data of the service\<close>

datatype provider = GROQ | TOGETHER | COHERE | HUGGING_FACE

record LLMProvider =
  name :: string
  endpoint :: string
  apiKey :: "string option"
  model :: string
  maxTokens :: nat
  rateLimit :: nat

definition FREE_LLM_PROVIDERS :: "provider \<Rightarrow> LLMProvider" where
  "FREE_LLM_PROVIDERS p =
     (case p of
        HUGGING_FACE \<Rightarrow>
          \<lparr>name = ''Hugging Face'', endpoint = ''https://api-inference.huggingface.co/models'',
           apiKey = None, model = ''microsoft/DialoGPT-large'', maxTokens = 1024, rateLimit = 30\<rparr>
      | COHERE \<Rightarrow>
          \<lparr>name = ''Cohere'', endpoint = ''https://api.cohere.ai/v1/generate'',
           apiKey = None, model = ''command-light'', maxTokens = 2048, rateLimit = 100\<rparr>
      | GROQ \<Rightarrow>
          \<lparr>name = ''Groq'', endpoint = ''https://api.groq.com/openai/v1/chat/completions'',
           apiKey = None, model = ''llama3-8b-8192'', maxTokens = 8192, rateLimit = 30\<rparr>
      | TOGETHER \<Rightarrow>
          \<lparr>name = ''Together AI'', endpoint = ''https://api.together.xyz/v1/chat/completions'',
           apiKey = None, model = ''meta-llama/Llama-2-7b-chat-hf'', maxTokens = 4096,
           rateLimit = 60\<rparr>)"

datatype role = User | Assistant

record Turn =
  role :: role
  content :: string

record Context =
  userId :: "string option"
  equipmentSerialNumbers :: "string list option"
  previousParts :: "string list option"
  conversationHistory :: "Turn list option"

text \<open>
  The field \<open>context'\<close> is \<^verbatim>\<open>context\<close> of the source. The field \<^verbatim>\<open>provider\<close> is
  declared with the key type of the registry.
\<close>

record LLMRequest =
  message :: string
  context' :: "Context option"
  provider :: "provider option"

record PartSuggestion =
  partNumber :: string
  name :: string
  compatibility :: "string list"
  price :: int
  inStock :: bool
  aiRecommended :: bool
  reasonForSuggestion :: string

text \<open>
  The source declares \<^verbatim>\<open>severity\<close> as one of four literals and stores a string under
  the cast \<^verbatim>\<open>as any\<close>: the field holds whatever string the parser computes.
\<close>

record FaultCodeInfo =
  code :: string
  description :: string
  severity :: string
  possibleCauses :: "string list"
  recommendedActions :: "string list"
  relatedParts :: "string list"

record LLMResponse =
  message :: string
  suggestions :: "PartSuggestion list option"
  faultCodeInfo :: "FaultCodeInfo option"
  troubleshootingSteps :: "string list option"
  confidence :: real
  provider :: string

record RequestData =
  count :: nat
  resetTime :: int

text \<open>
  How one HTTP exchange ends. \<open>Rejected\<close> stands for every way in which the
  \<^verbatim>\<open>call...\<close> methods throw after the key check: \<^verbatim>\<open>fetch\<close> rejects, the status is
  not a success, the body is not JSON, the envelope lacks the array that is indexed, or
  the completion is not a string (then \<^verbatim>\<open>aiMessage.match\<close> is not a function).
  \<open>Completed x\<close> carries the completion text of the envelope, \<open>None\<close> when the
  optional chain yields no text (undefined, null or another falsy value).
\<close>

datatype fetch_outcome = Rejected | Completed "string option"

text \<open>
  The environment of a run: \<open>clock w i\<close> is what the \<open>i\<close>-th call of \<^verbatim>\<open>Date.now()\<close>
  returns, \<open>fetch w k p prompt\<close> is how the \<open>k\<close>-th provider invocation ends, and
  \<open>random w k j\<close> is the \<open>j\<close>-th value of \<^verbatim>\<open>Math.random()\<close> drawn while the answer of
  that invocation is parsed.
\<close>

record world =
  clock :: "nat \<Rightarrow> int"
  fetch :: "nat \<Rightarrow> provider \<Rightarrow> string \<Rightarrow> fetch_outcome"
  random :: "nat \<Rightarrow> nat \<Rightarrow> real"

text \<open>
  The fields of the class that change, \<^verbatim>\<open>currentProvider\<close> and
  \<^verbatim>\<open>requestCounts\<close>, together with the history of the run: how often the clock has
  been read, and which providers have been invoked with which success, oldest first.
  The field \<^verbatim>\<open>fallbackOrder\<close> of the class is never read.
\<close>

record state =
  currentProvider :: provider
  requestCounts :: "provider \<Rightarrow> RequestData option"
  clockReads :: nat
  invocations :: "(provider \<times> bool) list"

text \<open>The state the constructor leaves.\<close>

definition initial :: state where
  "initial = \<lparr>currentProvider = GROQ, requestCounts = (\<lambda>p. None), clockReads = 0,
     invocations = []\<rparr>"

definition fallbackOrder :: "provider list" where
  "fallbackOrder = [GROQ, TOGETHER, COHERE, HUGGING_FACE]"

text \<open>\<^verbatim>\<open>process.env\<close>: the configuration variables by name.\<close>

type_synonym env = "string \<Rightarrow> string option"

datatype error = KeyNotConfigured provider | ProviderError provider

subsection \<open>Credentials\<close>

definition getValidApiKey :: "env \<Rightarrow> provider \<Rightarrow> string option" where
  "getValidApiKey env p =
     (let apiKey =
        (case p of
           GROQ \<Rightarrow> env ''EXPO_PUBLIC_GROQ_API_KEY''
         | TOGETHER \<Rightarrow> env ''EXPO_PUBLIC_TOGETHER_API_KEY''
         | COHERE \<Rightarrow> env ''EXPO_PUBLIC_COHERE_API_KEY''
         | HUGGING_FACE \<Rightarrow> env ''EXPO_PUBLIC_HUGGINGFACE_API_KEY'')
      in case apiKey of
           None \<Rightarrow> None
         | Some k \<Rightarrow>
             if k = [] \<or> str_includes k ''your_'' \<or> str_includes k ''_api_key_here''
                \<or> trim k = []
             then None else Some k)"

definition hasConfiguredProviders :: "env \<Rightarrow> bool" where
  "hasConfiguredProviders env =
     (getValidApiKey env GROQ \<noteq> None \<or> getValidApiKey env TOGETHER \<noteq> None
      \<or> getValidApiKey env COHERE \<noteq> None \<or> getValidApiKey env HUGGING_FACE \<noteq> None)"

definition getAvailableProviders :: "env \<Rightarrow> provider list" where
  "getAvailableProviders env =
     (if getValidApiKey env GROQ \<noteq> None then [GROQ] else [])
     @ (if getValidApiKey env TOGETHER \<noteq> None then [TOGETHER] else [])
     @ (if getValidApiKey env COHERE \<noteq> None then [COHERE] else [])
     @ (if getValidApiKey env HUGGING_FACE \<noteq> None then [HUGGING_FACE] else [])"

subsection \<open>The rate limiter\<close>

definition Date_now :: "world \<Rightarrow> state \<Rightarrow> int \<times> state" where
  "Date_now w st = (clock w (clockReads st), st\<lparr>clockReads := Suc (clockReads st)\<rparr>)"

definition isRateLimited :: "world \<Rightarrow> provider \<Rightarrow> state \<Rightarrow> bool \<times> state" where
  "isRateLimited w p st =
     (case Date_now w st of (now, st1) \<Rightarrow>
        (case requestCounts st1 p of
           None \<Rightarrow> (False, st1)
         | Some requestData \<Rightarrow>
             if now > resetTime requestData
             then (False, st1\<lparr>requestCounts := (requestCounts st1)(p := None)\<rparr>)
             else (count requestData \<ge> rateLimit (FREE_LLM_PROVIDERS p), st1)))"

definition updateRequestCount :: "world \<Rightarrow> provider \<Rightarrow> state \<Rightarrow> state" where
  "updateRequestCount w p st =
     (case Date_now w st of (now, st1) \<Rightarrow>
        (let fresh = st1\<lparr>requestCounts :=
                 (requestCounts st1)(p \<mapsto> \<lparr>count = 1, resetTime = now + 60000\<rparr>)\<rparr>
         in case requestCounts st1 p of
              None \<Rightarrow> fresh
            | Some requestData \<Rightarrow>
                if now > resetTime requestData then fresh
                else st1\<lparr>requestCounts :=
                    (requestCounts st1)(p \<mapsto> requestData\<lparr>count := count requestData + 1\<rparr>)\<rparr>))"

subsection \<open>The response parser\<close>

text \<open>
  One element of \<^verbatim>\<open>partMatches.map(...)\<close>: the pattern is matched again on the
  matched text, and \<open>i\<close> is the index of the element, which fixes the two random
  draws it makes.
\<close>

definition suggestion_of :: "(nat \<Rightarrow> real) \<Rightarrow> LLMRequest \<Rightarrow> nat \<Rightarrow> string \<Rightarrow> PartSuggestion" where
  "suggestion_of rnd request i matched =
     (let c = (case match_first part_re matched of None \<Rightarrow> (\<lambda>n. None) | Some (t, c) \<Rightarrow> c)
      in \<lparr>partNumber = orElse (map_option trim (c 2)) [],
          name = orElse (map_option trim (c 1)) [],
          compatibility =
            (case context' request of
               None \<Rightarrow> []
             | Some cx \<Rightarrow> (case equipmentSerialNumbers cx of None \<Rightarrow> [] | Some xs \<Rightarrow> xs)),
          price = \<lfloor>rnd (2 * i) * 500\<rfloor> + 50,
          inStock = (rnd (2 * i + 1) > 0.3),
          aiRecommended = True,
          reasonForSuggestion =
            orElse (map_option trim (c 3)) ''AI recommended based on your query''\<rparr>)"

definition parseAIResponse :: "(nat \<Rightarrow> real) \<Rightarrow> string \<Rightarrow> LLMRequest \<Rightarrow> LLMResponse" where
  "parseAIResponse rnd aiMessage request =
     (let partMatches = match_all part_re aiMessage
      in \<lparr>message = aiMessage,
          suggestions =
            (if partMatches = [] then None
             else Some (map (\<lambda>(i, matched). suggestion_of rnd request i matched)
                            (enumerate 0 partMatches))),
          faultCodeInfo =
            (case match_first fault_re aiMessage of
               None \<Rightarrow> None
             | Some (t, c) \<Rightarrow>
                 Some \<lparr>code = orElse (map_option trim (c 1)) [],
                       description = orElse (map_option trim (c 2)) [],
                       severity = orElse (map_option (\<lambda>v. toLowerCase (trim v)) (c 3)) ''medium'',
                       possibleCauses =
                         (case c 4 of None \<Rightarrow> [] | Some v \<Rightarrow> map trim (split CHR '','' v)),
                       recommendedActions =
                         (case c 5 of None \<Rightarrow> [] | Some v \<Rightarrow> map trim (split CHR '','' v)),
                       relatedParts = []\<rparr>),
          troubleshootingSteps =
            (case match_first steps_re aiMessage of
               None \<Rightarrow> None
             | Some (t, c) \<Rightarrow>
                 Some (map (\<lambda>step. trim (strip_numbering step))
                        (filter (\<lambda>step. trim step \<noteq> [])
                           (split CHR 0x0A (case c 1 of None \<Rightarrow> [] | Some g \<Rightarrow> g))))),
          confidence = 0.8,
          provider = []\<rparr>)"

subsection \<open>The provider invoker\<close>

definition role_text :: "role \<Rightarrow> string" where
  "role_text r = (case r of User \<Rightarrow> ''user'' | Assistant \<Rightarrow> ''assistant'')"

definition buildCatCentralPrompt :: "LLMRequest \<Rightarrow> string" where
  "buildCatCentralPrompt request =
     (let serials =
            (case context' request of
               None \<Rightarrow> []
             | Some cx \<Rightarrow> (case equipmentSerialNumbers cx of None \<Rightarrow> [] | Some xs \<Rightarrow> xs));
          history =
            (case context' request of
               None \<Rightarrow> []
             | Some cx \<Rightarrow> (case conversationHistory cx of None \<Rightarrow> [] | Some xs \<Rightarrow> xs))
      in ''User Query: '' @ LLMRequest.message request @ ''\<newline>\<newline>''
         @ (if length serials \<noteq> 0
            then ''User Equipment: '' @ join '', '' serials @ ''\<newline>'' else [])
         @ (if length history \<noteq> 0
            then ''Previous Conversation:\<newline>''
                 @ concat (map (\<lambda>msg. role_text (role msg) @ '': '' @ content msg @ ''\<newline>'')
                             (drop (length history - 3) history))
            else [])
         @ ''\<newline>Please provide a helpful response about Caterpillar equipment, parts, or maintenance.'')"

text \<open>
  \<^verbatim>\<open>callLLMProvider\<close> with the four \<^verbatim>\<open>call...\<close> methods, which differ in the shape
  of the payload and of the envelope only: the key is checked, the exchange is made,
  a missing or empty completion is replaced by the apology, and the text is parsed.
  Every call is entered in the history with its success.
\<close>

definition callLLMProvider ::
    "world \<Rightarrow> env \<Rightarrow> provider \<Rightarrow> LLMRequest \<Rightarrow> state \<Rightarrow> (error + LLMResponse) \<times> state" where
  "callLLMProvider w env p request st =
     (let prompt = buildCatCentralPrompt request;
          k = length (invocations st)
      in case getValidApiKey env p of
           None \<Rightarrow>
             (Inl (KeyNotConfigured p), st\<lparr>invocations := invocations st @ [(p, False)]\<rparr>)
         | Some key \<Rightarrow>
             (case fetch w k p prompt of
                Rejected \<Rightarrow>
                  (Inl (ProviderError p), st\<lparr>invocations := invocations st @ [(p, False)]\<rparr>)
              | Completed text \<Rightarrow>
                  (Inr (parseAIResponse (random w k)
                          (orElse text ''I apologize, but I couldn't process your request.'')
                          request),
                   st\<lparr>invocations := invocations st @ [(p, True)]\<rparr>)))"

subsection \<open>The canned replies\<close>

definition getConfigurationRequiredResponse :: "string \<Rightarrow> LLMResponse" where
  "getConfigurationRequiredResponse msg =
     \<lparr>message = join ''\<newline>''
        [[CHR 0xF0, CHR 0x9F, CHR 0x94, CHR 0xA7] @ '' **AI Assistant Setup Required**'',
         [],
         ''To use the AI assistant, you need to configure at least one API key in your environment variables. Here are your free options:'',
         [],
         ''**Quick Setup (Recommended):**'',
         ''1. **Groq** (Fastest) - Get free API key at https://console.groq.com/'',
         ''2. **Together AI** - Get $25 free credits at https://api.together.xyz/'',
         ''3. **Cohere** - Get 1000 free requests at https://dashboard.cohere.ai/'',
         ''4. **Hugging Face** - Get unlimited free tier at https://huggingface.co/settings/tokens'',
         [],
         ''**Setup Steps:**'',
         ''1. Get an API key from any provider above'',
         ''2. Replace the placeholder values in your .env file:'',
         ''   - Replace 'your_groq_api_key_here' with your actual Groq API key'',
         ''   - Replace 'your_together_api_key_here' with your actual Together AI API key'',
         ''   - Replace 'your_cohere_api_key_here' with your actual Cohere API key'',
         ''   - Replace 'your_huggingface_api_key_here' with your actual Hugging Face API key'',
         ''3. Restart the application'',
         [],
         ''Once configured, I'll be able to help you with:'',
         ''- Parts identification and compatibility'',
         ''- Fault code diagnosis'',
         ''- Maintenance guidance'',
         ''- Equipment troubleshooting'',
         [],
         ''For detailed setup instructions, check the README_FREE_LLM_SETUP.md file.''],
      suggestions = None, faultCodeInfo = None, troubleshootingSteps = None,
      confidence = 1.0,
      provider = ''Configuration Helper''\<rparr>"

definition parts_text :: string where
  "parts_text = ''I can help you find parts for your Cat equipment. Please provide your equipment serial number or describe the specific part you need. You can also use the camera feature to identify parts visually.''"

definition fault_text :: string where
  "fault_text = ''I can help diagnose fault codes. Please provide the specific fault code you're seeing, along with your equipment model. Common fault codes include engine, hydraulic, and electrical system errors.''"

definition maintenance_text :: string where
  "maintenance_text = ''I can provide maintenance guidance for your Cat equipment. Please specify your equipment model and the type of maintenance you need help with - routine service, preventive maintenance, or specific repairs.''"

definition default_text :: string where
  "default_text = ''I'm here to help with your Cat equipment needs. I can assist with parts identification, fault code diagnosis, maintenance schedules, and general equipment support. How can I help you today?''"

definition getOfflineFallbackResponse :: "string \<Rightarrow> LLMResponse" where
  "getOfflineFallbackResponse msg =
     (let lowerMessage = toLowerCase msg;
          fallbackMessage =
            (if str_includes lowerMessage ''part'' \<or> str_includes lowerMessage ''component''
             then parts_text
             else if str_includes lowerMessage ''fault'' \<or> str_includes lowerMessage ''error''
                     \<or> str_includes lowerMessage ''code''
             then fault_text
             else if str_includes lowerMessage ''maintenance''
                     \<or> str_includes lowerMessage ''service''
             then maintenance_text
             else default_text)
      in \<lparr>message = fallbackMessage,
          suggestions = None, faultCodeInfo = None, troubleshootingSteps = None,
          confidence = 0.6,
          provider = ''Offline Fallback''\<rparr>)"

subsection \<open>The orchestrator\<close>

text \<open>
  The loop of \<^verbatim>\<open>tryFallbackProviders\<close> over the providers that are left: \<open>None\<close>
  when it runs to its end.
\<close>

fun fallbackLoop ::
    "world \<Rightarrow> env \<Rightarrow> LLMRequest \<Rightarrow> provider list \<Rightarrow> state \<Rightarrow> LLMResponse option \<times> state" where
  "fallbackLoop w env request [] st = (None, st)"
| "fallbackLoop w env request (p # ps) st =
     (case isRateLimited w p st of
        (True, st1) \<Rightarrow> fallbackLoop w env request ps st1
      | (False, st1) \<Rightarrow>
          (case callLLMProvider w env p request st1 of
             (Inr response, st2) \<Rightarrow>
               (Some (response\<lparr>provider := LLMProvider.name (FREE_LLM_PROVIDERS p)\<rparr>),
                st2\<lparr>currentProvider := p\<rparr>)
           | (Inl e, st2) \<Rightarrow> fallbackLoop w env request ps st2))"

definition tryFallbackProviders ::
    "world \<Rightarrow> env \<Rightarrow> LLMRequest \<Rightarrow> provider list option \<Rightarrow> state \<Rightarrow> LLMResponse \<times> state" where
  "tryFallbackProviders w env request availableProviders st =
     (let providers =
            (case availableProviders of None \<Rightarrow> getAvailableProviders env | Some ps \<Rightarrow> ps)
      in case fallbackLoop w env request providers st of
           (Some response, st') \<Rightarrow> (response, st')
         | (None, st') \<Rightarrow> (getOfflineFallbackResponse (LLMRequest.message request), st'))"

text \<open>
  The provider the first attempt goes to: the one the caller names, else
  \<^verbatim>\<open>currentProvider\<close>, when it is among the available ones, and the first available
  one otherwise.
\<close>

definition actualProvider :: "provider list \<Rightarrow> LLMRequest \<Rightarrow> state \<Rightarrow> provider \<Rightarrow> provider" where
  "actualProvider availableProviders request st first =
     (let wanted =
            (case LLMRequest.provider request of None \<Rightarrow> currentProvider st | Some p \<Rightarrow> p)
      in if wanted \<in> set availableProviders then wanted else first)"

definition processMessage :: "world \<Rightarrow> env \<Rightarrow> LLMRequest \<Rightarrow> state \<Rightarrow> LLMResponse \<times> state" where
  "processMessage w env request st =
     (if \<not> hasConfiguredProviders env
      then (getConfigurationRequiredResponse (LLMRequest.message request), st)
      else
        (case getAvailableProviders env of
           [] \<Rightarrow> (getConfigurationRequiredResponse (LLMRequest.message request), st)
         | first # others \<Rightarrow>
             (let availableProviders = first # others;
                  actual = actualProvider availableProviders request st first
              in case isRateLimited w actual st of
                   (True, st1) \<Rightarrow> tryFallbackProviders w env request (Some availableProviders) st1
                 | (False, st1) \<Rightarrow>
                     (case callLLMProvider w env actual request st1 of
                        (Inr response, st2) \<Rightarrow>
                          (response\<lparr>provider := LLMProvider.name (FREE_LLM_PROVIDERS actual)\<rparr>,
                           updateRequestCount w actual st2)
                      | (Inl e, st2) \<Rightarrow>
                          tryFallbackProviders w env request (Some availableProviders) st2))))"

subsection \<open>Conditions on a run\<close>

text \<open>
  What the statements below assume about the environment during one call that starts
  in the state \<open>st\<close>. A provider is throttled throughout when its window is full and no
  reading of the clock from now on is past the reset time. It is never throttled when
  it has no rate state, or its window is not full, or every reading of the clock from
  now on is past the reset time.
\<close>

definition throttledThroughout :: "world \<Rightarrow> state \<Rightarrow> provider \<Rightarrow> bool" where
  "throttledThroughout w st p =
     (case requestCounts st p of
        None \<Rightarrow> False
      | Some d \<Rightarrow>
          rateLimit (FREE_LLM_PROVIDERS p) \<le> count d
          \<and> (\<forall>i. clock w (clockReads st + i) \<le> resetTime d))"

definition neverThrottled :: "world \<Rightarrow> state \<Rightarrow> provider \<Rightarrow> bool" where
  "neverThrottled w st p =
     (case requestCounts st p of
        None \<Rightarrow> True
      | Some d \<Rightarrow>
          count d < rateLimit (FREE_LLM_PROVIDERS p)
          \<or> (\<forall>i. resetTime d < clock w (clockReads st + i)))"

text \<open>Every exchange with the provider is rejected, or every exchange is completed.\<close>

definition alwaysRejected :: "world \<Rightarrow> provider \<Rightarrow> bool" where
  "alwaysRejected w p = (\<forall>k prompt. fetch w k p prompt = Rejected)"

definition alwaysCompleted :: "world \<Rightarrow> provider \<Rightarrow> bool" where
  "alwaysCompleted w p = (\<forall>k prompt. fetch w k p prompt \<noteq> Rejected)"


subsection \<open>Example environments\<close>

text \<open>A request that names no provider and carries no context.\<close>

definition plain_request :: "string \<Rightarrow> LLMRequest" where
  "plain_request msg = \<lparr>LLMRequest.message = msg, context' = None, LLMRequest.provider = None\<rparr>"

text \<open>The configuration shipped as the example: every key is a placeholder.\<close>

definition env_placeholders :: env where
  "env_placeholders v =
     (if v = ''EXPO_PUBLIC_GROQ_API_KEY'' then Some ''your_groq_api_key_here''
      else if v = ''EXPO_PUBLIC_TOGETHER_API_KEY'' then Some ''your_together_api_key_here''
      else if v = ''EXPO_PUBLIC_COHERE_API_KEY'' then Some ''your_cohere_api_key_here''
      else if v = ''EXPO_PUBLIC_HUGGINGFACE_API_KEY'' then Some ''your_huggingface_api_key_here''
      else None)"

text \<open>
  Keys that are blank: two no-break spaces for Groq, a tab and a space for Together AI,
  the empty string for Cohere, and no variable for Hugging Face.
\<close>

definition env_blank :: env where
  "env_blank v =
     (if v = ''EXPO_PUBLIC_GROQ_API_KEY'' then Some [CHR 0xC2, CHR 0xA0, CHR 0xC2, CHR 0xA0]
      else if v = ''EXPO_PUBLIC_TOGETHER_API_KEY'' then Some [CHR 0x09, CHR 0x20]
      else if v = ''EXPO_PUBLIC_COHERE_API_KEY'' then Some []
      else None)"

text \<open>A key for Groq only, and keys for Groq and Together AI.\<close>

definition env_groq :: env where
  "env_groq v = (if v = ''EXPO_PUBLIC_GROQ_API_KEY'' then Some ''gsk_live'' else None)"

definition env_groq_together :: env where
  "env_groq_together v =
     (if v = ''EXPO_PUBLIC_GROQ_API_KEY'' then Some ''gsk_live''
      else if v = ''EXPO_PUBLIC_TOGETHER_API_KEY'' then Some ''tgr_live''
      else None)"

text \<open>A clock that stands still, with every exchange rejected.\<close>

definition world_down :: world where
  "world_down = \<lparr>clock = (\<lambda>i. 1000), fetch = (\<lambda>k p prompt. Rejected), random = (\<lambda>k j. 1 / 2)\<rparr>"

text \<open>Groq is down, every other provider answers with a plain sentence.\<close>

definition world_groq_down :: world where
  "world_groq_down =
     \<lparr>clock = (\<lambda>i. 1000),
      fetch = (\<lambda>k p prompt. if p = GROQ then Rejected else Completed (Some ''Check the oil filter.'')),
      random = (\<lambda>k j. 1 / 2)\<rparr>"

text \<open>The state after one call in that world, with Groq and Together AI configured.\<close>

definition after_fallback :: state where
  "after_fallback =
     snd (processMessage world_groq_down env_groq_together (plain_request ''hello'') initial)"

text \<open>The part line of the format that the system prompt asks for.\<close>

definition part_line :: string where
  "part_line = ''Part: Oil Filter (Part #: 1R-0750) - keeps contaminants out''"

text \<open>An answer with a fault-code block whose severity line says more than one word.\<close>

definition fault_answer :: string where
  "fault_answer =
     ''Fault Code: E101 - Low oil pressure\<newline>Severity: High - stop the machine\<newline>Possible Causes: worn pump, low oil level\<newline>Recommended Actions: check oil level, replace pump''"

text \<open>Every provider answers with a plain sentence.\<close>

definition world_up :: world where
  "world_up =
     \<lparr>clock = (\<lambda>i. 1000),
      fetch = (\<lambda>k p prompt. Completed (Some ''Check the oil filter.'')),
      random = (\<lambda>k j. 1 / 2)\<rparr>"

text \<open>
  The state after a fresh service has recorded the whole budget of Groq (30 requests)
  at time 1000.
\<close>

definition groq_spent :: state where
  "groq_spent = (updateRequestCount world_up GROQ ^^ 30) initial"

text \<open>
  The same with a clock that reads 1000 thirty times, then 61000, the reset time of
  the window, and 61001 from then on.
\<close>

definition world_race :: world where
  "world_race =
     \<lparr>clock = (\<lambda>i. if i < 30 then 1000 else if i = 30 then 61000 else 61001),
      fetch = (\<lambda>k p prompt. Completed (Some ''Check the oil filter.'')),
      random = (\<lambda>k j. 1 / 2)\<rparr>"

definition race_state :: state where
  "race_state = (updateRequestCount world_race GROQ ^^ 30) initial"

text \<open>A request that names a provider.\<close>

definition request_to :: "provider \<Rightarrow> string \<Rightarrow> LLMRequest" where
  "request_to p msg = \<lparr>LLMRequest.message = msg, context' = None, LLMRequest.provider = Some p\<rparr>"


section \<open>Properties\<close>

text \<open>The equations that compute \<open>trim\<close> on a given string.\<close>

lemmas trim_simps = trim_def whiteSpace_def stripStart.simps

text \<open>The valid keys of the example environments.\<close>

lemma keys_placeholders: "getValidApiKey env_placeholders p = None"
  by (cases p) (simp_all add: getValidApiKey_def env_placeholders_def)

lemma keys_blank: "getValidApiKey env_blank p = None"
  by (cases p) (simp_all add: getValidApiKey_def env_blank_def trim_simps)

lemma keys_groq: "getValidApiKey env_groq p = (if p = GROQ then Some ''gsk_live'' else None)"
  by (cases p) (simp_all add: getValidApiKey_def env_groq_def trim_simps)

lemma keys_groq_together:
  "getValidApiKey env_groq_together p =
     (if p = GROQ then Some ''gsk_live'' else if p = TOGETHER then Some ''tgr_live'' else None)"
  by (cases p) (simp_all add: getValidApiKey_def env_groq_together_def trim_simps)


subsection \<open>The rate limiter\<close>

lemma updateRequestCount_fresh:
  assumes "requestCounts st p = None
    \<or> (\<exists>d. requestCounts st p = Some d \<and> resetTime d < clock w (clockReads st))"
  shows "updateRequestCount w p st =
    st\<lparr>clockReads := Suc (clockReads st),
       requestCounts :=
         (requestCounts st)(p \<mapsto> \<lparr>count = 1, resetTime = clock w (clockReads st) + 60000\<rparr>)\<rparr>"
  using assms by (auto simp: updateRequestCount_def Date_now_def Let_def)

lemma updateRequestCount_open:
  assumes "requestCounts st p = Some d" and "clock w (clockReads st) \<le> resetTime d"
  shows "updateRequestCount w p st =
    st\<lparr>clockReads := Suc (clockReads st),
       requestCounts := (requestCounts st)(p \<mapsto> d\<lparr>count := Suc (count d)\<rparr>)\<rparr>"
  using assms by (auto simp: updateRequestCount_def Date_now_def Let_def)

text \<open>Recordings that fall into the open window only count up.\<close>

lemma record_in_window:
  assumes "requestCounts st p = Some d"
    and "\<forall>i<n. clock w (clockReads st + i) \<le> resetTime d"
  shows "(updateRequestCount w p ^^ n) st =
    st\<lparr>clockReads := clockReads st + n,
       requestCounts := (requestCounts st)(p \<mapsto> d\<lparr>count := count d + n\<rparr>)\<rparr>"
  using assms(2)
proof (induction n)
  case 0
  show ?case using assms(1) by (simp add: fun_upd_idem)
next
  case (Suc n)
  have ih: "(updateRequestCount w p ^^ n) st =
    st\<lparr>clockReads := clockReads st + n,
       requestCounts := (requestCounts st)(p \<mapsto> d\<lparr>count := count d + n\<rparr>)\<rparr>"
    by (rule Suc.IH) (use Suc.prems in simp)
  from Suc.prems have le: "clock w (clockReads st + n) \<le> resetTime d" by simp
  show ?case
    by (simp add: ih updateRequestCount_open [where d = "d\<lparr>count := count d + n\<rparr>"] le)
      (rule state.equality; simp add: fun_eq_iff)
qed

text \<open>A first recording that opens a window, and \<open>n\<close> more inside it.\<close>

lemma record_budget:
  assumes fresh: "requestCounts st p = None
      \<or> (\<exists>d. requestCounts st p = Some d \<and> resetTime d < clock w (clockReads st))"
    and window: "\<forall>i<n. clock w (clockReads st + Suc i) \<le> clock w (clockReads st) + 60000"
  shows "(updateRequestCount w p ^^ Suc n) st =
    st\<lparr>clockReads := clockReads st + Suc n,
       requestCounts :=
         (requestCounts st)(p \<mapsto> \<lparr>count = Suc n, resetTime = clock w (clockReads st) + 60000\<rparr>)\<rparr>"
proof -
  let ?st1 = "updateRequestCount w p st"
  let ?d = "\<lparr>count = 1, resetTime = clock w (clockReads st) + 60000\<rparr>"
  have st1: "?st1 = st\<lparr>clockReads := Suc (clockReads st),
       requestCounts := (requestCounts st)(p \<mapsto> ?d)\<rparr>"
    by (rule updateRequestCount_fresh [OF fresh])
  have "(updateRequestCount w p ^^ Suc n) st = (updateRequestCount w p ^^ n) ?st1"
    by (simp add: funpow_swap1)
  also have "\<dots> = ?st1\<lparr>clockReads := clockReads ?st1 + n,
       requestCounts := (requestCounts ?st1)(p \<mapsto> ?d\<lparr>count := count ?d + n\<rparr>)\<rparr>"
    by (rule record_in_window) (use window in \<open>simp_all add: st1\<close>)
  finally show ?thesis by (simp add: st1)
qed

lemma rateLimit_positive: "0 < rateLimit (FREE_LLM_PROVIDERS p)"
  by (cases p) (simp_all add: FREE_LLM_PROVIDERS_def)

text \<open>
  Claim C4. Let the budget of a provider be \<open>B\<close>, and let \<open>B\<close> requests be recorded in
  one window: the first recording finds no rate state, or an expired one, and so opens
  the window at its own time \<open>t\<close>, and the others read a time of at most \<open>t + 60000\<close>.
  Then \<^verbatim>\<open>isRateLimited\<close> answers true as long as the time it reads is at most the reset
  time \<open>t + 60000\<close>, and leaves the rate state alone; once the time it reads is past the
  reset time it answers false and deletes the rate state. The request recorded next,
  after that deletion or directly on the expired state, starts a window with count 1
  that is reset 60000 ms after the time of that recording.
\<close>

theorem rate_window:
  assumes fresh: "requestCounts st p = None
      \<or> (\<exists>d. requestCounts st p = Some d \<and> resetTime d < clock w (clockReads st))"
    and window: "\<forall>i<rateLimit (FREE_LLM_PROVIDERS p).
        clock w (clockReads st + i) \<le> clock w (clockReads st) + 60000"
    and st': "st' = (updateRequestCount w p ^^ rateLimit (FREE_LLM_PROVIDERS p)) st"
  shows "isRateLimited w p st' =
      (if clock w (clockReads st') \<le> clock w (clockReads st) + 60000
       then (True, st'\<lparr>clockReads := Suc (clockReads st')\<rparr>)
       else (False, st'\<lparr>clockReads := Suc (clockReads st'),
                        requestCounts := (requestCounts st')(p := None)\<rparr>))
    \<and> requestCounts (updateRequestCount w p
         (st'\<lparr>clockReads := Suc (clockReads st'),
             requestCounts := (requestCounts st')(p := None)\<rparr>)) p
       = Some \<lparr>count = 1, resetTime = clock w (Suc (clockReads st')) + 60000\<rparr>
    \<and> (if clock w (clockReads st) + 60000 < clock w (clockReads st')
       then requestCounts (updateRequestCount w p st') p
            = Some \<lparr>count = 1, resetTime = clock w (clockReads st') + 60000\<rparr>
       else requestCounts (updateRequestCount w p st') p
            = Some \<lparr>count = Suc (rateLimit (FREE_LLM_PROVIDERS p)),
                    resetTime = clock w (clockReads st) + 60000\<rparr>)"
proof -
  obtain n where budget: "rateLimit (FREE_LLM_PROVIDERS p) = Suc n"
    using rateLimit_positive [of p] by (cases "rateLimit (FREE_LLM_PROVIDERS p)") auto
  have window': "\<forall>i<n. clock w (clockReads st + Suc i) \<le> clock w (clockReads st) + 60000"
    using window budget by auto
  have eq: "st' = st\<lparr>clockReads := clockReads st + Suc n,
       requestCounts :=
         (requestCounts st)(p \<mapsto> \<lparr>count = Suc n, resetTime = clock w (clockReads st) + 60000\<rparr>)\<rparr>"
    unfolding st' budget by (rule record_budget [OF fresh window'])
  have a: "isRateLimited w p st' =
      (if clock w (clockReads st') \<le> clock w (clockReads st) + 60000
       then (True, st'\<lparr>clockReads := Suc (clockReads st')\<rparr>)
       else (False, st'\<lparr>clockReads := Suc (clockReads st'),
                        requestCounts := (requestCounts st')(p := None)\<rparr>))"
    by (simp add: eq isRateLimited_def Date_now_def budget)
  have b: "requestCounts (updateRequestCount w p
         (st'\<lparr>clockReads := Suc (clockReads st'),
             requestCounts := (requestCounts st')(p := None)\<rparr>)) p
       = Some \<lparr>count = 1, resetTime = clock w (Suc (clockReads st')) + 60000\<rparr>"
    by (simp add: updateRequestCount_fresh)
  have c: "(if clock w (clockReads st) + 60000 < clock w (clockReads st')
       then requestCounts (updateRequestCount w p st') p
            = Some \<lparr>count = 1, resetTime = clock w (clockReads st') + 60000\<rparr>
       else requestCounts (updateRequestCount w p st') p
            = Some \<lparr>count = Suc (rateLimit (FREE_LLM_PROVIDERS p)),
                    resetTime = clock w (clockReads st) + 60000\<rparr>)"
    by (simp add: eq updateRequestCount_def Date_now_def budget)
  from a b c show ?thesis by blast
qed

theorem rate_window_witness:
  "isRateLimited world_down GROQ ((updateRequestCount world_down GROQ ^^ 30) initial) =
     (True, ((updateRequestCount world_down GROQ ^^ 30) initial)
        \<lparr>clockReads := Suc (clockReads ((updateRequestCount world_down GROQ ^^ 30) initial))\<rparr>)"
proof -
  have budget: "rateLimit (FREE_LLM_PROVIDERS GROQ) = 30"
    by (simp add: FREE_LLM_PROVIDERS_def)
  have fresh: "requestCounts initial GROQ = None
      \<or> (\<exists>d. requestCounts initial GROQ = Some d
            \<and> resetTime d < clock world_down (clockReads initial))"
    by (simp add: initial_def)
  have window: "\<forall>i<rateLimit (FREE_LLM_PROVIDERS GROQ).
      clock world_down (clockReads initial + i) \<le> clock world_down (clockReads initial) + 60000"
    by (simp add: world_down_def)
  from rate_window [OF fresh window refl] show ?thesis
    by (simp add: budget world_down_def)
qed

subsection \<open>The orchestrator\<close>

lemma isRateLimited_fields:
  assumes "isRateLimited w p st = (b, st1)"
  shows "invocations st1 = invocations st" and "currentProvider st1 = currentProvider st"
    and "clockReads st1 = Suc (clockReads st)"
    and "requestCounts st1 q = requestCounts st q \<or> requestCounts st1 q = None"
  using assms
  by (auto simp: isRateLimited_def Date_now_def split: option.splits if_splits)

lemma callLLMProvider_fields:
  assumes "callLLMProvider w env p request st = (res, st2)"
  shows "invocations st2 = invocations st @ [(p, \<not> isl res)]"
    and "currentProvider st2 = currentProvider st"
    and "clockReads st2 = clockReads st"
    and "requestCounts st2 = requestCounts st"
  using assms
  by (auto simp: callLLMProvider_def Let_def split: option.splits fetch_outcome.splits)

lemma parseAIResponse_message: "LLMResponse.message (parseAIResponse rnd aiMessage request) = aiMessage"
  by (simp add: parseAIResponse_def Let_def)

lemma orElse_nonempty: "d \<noteq> [] \<Longrightarrow> orElse x d \<noteq> []"
  by (cases x) auto

lemma callLLMProvider_message:
  assumes "callLLMProvider w env p request st = (Inr r, st2)"
  shows "LLMResponse.message r \<noteq> []"
  using assms
  by (auto simp: callLLMProvider_def Let_def parseAIResponse_message orElse_nonempty
      split: option.splits fetch_outcome.splits)

lemma fallbackLoop_message:
  "fallbackLoop w env request ps st = (Some r, st') \<Longrightarrow> LLMResponse.message r \<noteq> []"
proof (induction ps arbitrary: st)
  case Nil
  then show ?case by simp
next
  case (Cons p ps)
  obtain b st1 where rl: "isRateLimited w p st = (b, st1)" by (cases "isRateLimited w p st")
  show ?case
  proof (cases b)
    case True
    with Cons.prems rl have "fallbackLoop w env request ps st1 = (Some r, st')" by simp
    then show ?thesis by (rule Cons.IH)
  next
    case False
    obtain res st2 where call: "callLLMProvider w env p request st1 = (res, st2)"
      by (cases "callLLMProvider w env p request st1")
    show ?thesis
    proof (cases res)
      case (Inl e)
      with Cons.prems rl False call have "fallbackLoop w env request ps st2 = (Some r, st')"
        by simp
      then show ?thesis by (rule Cons.IH)
    next
      case (Inr r0)
      with Cons.prems rl False call
      have "r = r0\<lparr>provider := LLMProvider.name (FREE_LLM_PROVIDERS p)\<rparr>" by simp
      moreover from call Inr have "LLMResponse.message r0 \<noteq> []"
        by (auto dest: callLLMProvider_message)
      ultimately show ?thesis by simp
    qed
  qed
qed

lemma offline_message: "LLMResponse.message (getOfflineFallbackResponse msg) \<noteq> []"
  by (simp add: getOfflineFallbackResponse_def Let_def parts_text_def fault_text_def
      maintenance_text_def default_text_def)

lemma configuration_message: "LLMResponse.message (getConfigurationRequiredResponse msg) \<noteq> []"
  by (simp add: getConfigurationRequiredResponse_def)

lemma tryFallbackProviders_message:
  "LLMResponse.message (fst (tryFallbackProviders w env request aps st)) \<noteq> []"
proof -
  let ?ps = "case aps of None \<Rightarrow> getAvailableProviders env | Some ps \<Rightarrow> ps"
  obtain res st' where loop: "fallbackLoop w env request ?ps st = (res, st')"
    by (cases "fallbackLoop w env request ?ps st")
  show ?thesis
  proof (cases res)
    case None
    with loop show ?thesis by (simp add: tryFallbackProviders_def offline_message)
  next
    case (Some r)
    with loop have "LLMResponse.message r \<noteq> []" by (auto dest: fallbackLoop_message)
    with loop Some show ?thesis by (simp add: tryFallbackProviders_def)
  qed
qed

lemma hasConfiguredProviders_iff:
  "hasConfiguredProviders env \<longleftrightarrow> getAvailableProviders env \<noteq> []"
  by (simp add: hasConfiguredProviders_def getAvailableProviders_def)

lemma processMessage_unconfigured:
  assumes "getAvailableProviders env = []"
  shows "processMessage w env request st =
    (getConfigurationRequiredResponse (LLMRequest.message request), st)"
  using assms by (simp add: processMessage_def)

lemma processMessage_throttled:
  assumes "getAvailableProviders env = first # others"
    and "isRateLimited w (actualProvider (first # others) request st first) st = (True, st1)"
  shows "processMessage w env request st =
    tryFallbackProviders w env request (Some (first # others)) st1"
  using assms by (simp add: processMessage_def hasConfiguredProviders_iff Let_def)

lemma processMessage_answered:
  assumes "getAvailableProviders env = first # others"
    and "actualProvider (first # others) request st first = a"
    and "isRateLimited w a st = (False, st1)"
    and "callLLMProvider w env a request st1 = (Inr r, st2)"
  shows "processMessage w env request st =
    (r\<lparr>provider := LLMProvider.name (FREE_LLM_PROVIDERS a)\<rparr>, updateRequestCount w a st2)"
  using assms by (simp add: processMessage_def hasConfiguredProviders_iff Let_def)

lemma processMessage_failed:
  assumes "getAvailableProviders env = first # others"
    and "actualProvider (first # others) request st first = a"
    and "isRateLimited w a st = (False, st1)"
    and "callLLMProvider w env a request st1 = (Inl e, st2)"
  shows "processMessage w env request st =
    tryFallbackProviders w env request (Some (first # others)) st2"
  using assms by (simp add: processMessage_def hasConfiguredProviders_iff Let_def)

text \<open>
  Claim C1. Whatever the message, the context, the configuration, the rate state, the
  clock and the outcome of every exchange, \<^verbatim>\<open>processMessage\<close> yields a reply whose
  message is not empty. The reply is a value of the model in every case: the only
  sites that throw are inside \<^verbatim>\<open>callLLMProvider\<close>, whose failure is the \<open>Inl\<close> branch
  that both callers handle.
\<close>

theorem processMessage_replies:
  "LLMResponse.message (fst (processMessage w env request st)) \<noteq> []"
proof (cases "getAvailableProviders env")
  case Nil
  then show ?thesis by (simp add: processMessage_unconfigured configuration_message)
next
  case (Cons first others)
  let ?a = "actualProvider (first # others) request st first"
  obtain b st1 where rl: "isRateLimited w ?a st = (b, st1)"
    by (cases "isRateLimited w ?a st")
  obtain res st2 where call: "callLLMProvider w env ?a request st1 = (res, st2)"
    by (cases "callLLMProvider w env ?a request st1")
  show ?thesis
  proof (cases b)
    case True
    with Cons rl show ?thesis
      by (simp add: processMessage_throttled tryFallbackProviders_message)
  next
    case False
    show ?thesis
    proof (cases res)
      case (Inl e)
      with Cons rl False call show ?thesis
        by (simp add: processMessage_failed [OF Cons refl] tryFallbackProviders_message)
    next
      case (Inr r0)
      with call have "LLMResponse.message r0 \<noteq> []" by (auto dest: callLLMProvider_message)
      with Cons rl False call Inr show ?thesis
        by (simp add: processMessage_answered [OF Cons refl])
    qed
  qed
qed

theorem processMessage_replies_witness:
  "LLMResponse.message
     (fst (processMessage world_down env_groq (plain_request ''hello'') initial)) \<noteq> []"
  by (rule processMessage_replies)

lemma updateRequestCount_fields:
  "invocations (updateRequestCount w p st) = invocations st"
  "currentProvider (updateRequestCount w p st) = currentProvider st"
  "clockReads (updateRequestCount w p st) = Suc (clockReads st)"
  by (auto simp: updateRequestCount_def Date_now_def Let_def split: option.splits)

lemma fallbackLoop_trace:
  "fallbackLoop w env request ps st = (res, st') \<Longrightarrow>
   \<exists>tr. invocations st' = invocations st @ tr \<and> subseq (map fst tr) ps
     \<and> (\<forall>x\<in>set (butlast tr). \<not> snd x)
     \<and> (case res of
          None \<Rightarrow> (\<forall>x\<in>set tr. \<not> snd x) \<and> currentProvider st' = currentProvider st
        | Some r \<Rightarrow> tr \<noteq> [] \<and> last tr = (currentProvider st', True)
            \<and> LLMResponse.provider r = LLMProvider.name (FREE_LLM_PROVIDERS (currentProvider st')))"
proof (induction ps arbitrary: st)
  case Nil
  then show ?case by auto
next
  case (Cons p ps)
  obtain b st1 where rl: "isRateLimited w p st = (b, st1)" by (cases "isRateLimited w p st")
  note f1 = isRateLimited_fields [OF rl]
  show ?case
  proof (cases b)
    case True
    with Cons.prems rl have "fallbackLoop w env request ps st1 = (res, st')" by simp
    from Cons.IH [OF this] obtain tr where tr: "invocations st' = invocations st1 @ tr"
      "subseq (map fst tr) ps" "\<forall>x\<in>set (butlast tr). \<not> snd x"
      "case res of
          None \<Rightarrow> (\<forall>x\<in>set tr. \<not> snd x) \<and> currentProvider st' = currentProvider st1
        | Some r \<Rightarrow> tr \<noteq> [] \<and> last tr = (currentProvider st', True)
            \<and> LLMResponse.provider r = LLMProvider.name (FREE_LLM_PROVIDERS (currentProvider st'))"
      by blast
    from tr(2) have "subseq (map fst tr) (p # ps)" by (rule list_emb_Cons)
    with tr f1 show ?thesis by (intro exI [of _ tr]) (simp split: option.splits)
  next
    case False
    obtain r0 st2 where call: "callLLMProvider w env p request st1 = (r0, st2)"
      by (cases "callLLMProvider w env p request st1")
    note f2 = callLLMProvider_fields [OF call]
    show ?thesis
    proof (cases r0)
      case (Inl e)
      with Cons.prems rl False call have "fallbackLoop w env request ps st2 = (res, st')"
        by simp
      from Cons.IH [OF this] obtain tr where tr: "invocations st' = invocations st2 @ tr"
        "subseq (map fst tr) ps" "\<forall>x\<in>set (butlast tr). \<not> snd x"
        "case res of
            None \<Rightarrow> (\<forall>x\<in>set tr. \<not> snd x) \<and> currentProvider st' = currentProvider st2
          | Some r \<Rightarrow> tr \<noteq> [] \<and> last tr = (currentProvider st', True)
              \<and> LLMResponse.provider r = LLMProvider.name (FREE_LLM_PROVIDERS (currentProvider st'))"
        by blast
      from tr(2) have "subseq (map fst ((p, False) # tr)) (p # ps)" by simp
      with tr f1 f2 Inl show ?thesis
        by (intro exI [of _ "(p, False) # tr"]) (auto split: option.splits)
    next
      case (Inr r1)
      with Cons.prems rl False call
      have "res = Some (r1\<lparr>provider := LLMProvider.name (FREE_LLM_PROVIDERS p)\<rparr>)"
        and "st' = st2\<lparr>currentProvider := p\<rparr>" by simp_all
      with f1 f2 Inr show ?thesis
        by (intro exI [of _ "[(p, True)]"]) simp
    qed
  qed
qed

lemma subseq_count_list: "subseq xs ys \<Longrightarrow> count_list xs p \<le> count_list ys p"
  by (induction rule: list_emb.induct) auto

lemma distinct_available: "distinct (getAvailableProviders env)"
  by (simp add: getAvailableProviders_def)

lemma count_list_distinct: "distinct xs \<Longrightarrow> count_list xs p \<le> 1"
  by (induction xs) auto

lemma tryFallbackProviders_trace:
  assumes "tryFallbackProviders w env request (Some ps) st = (r, st')"
  shows "\<exists>tr. invocations st' = invocations st @ tr \<and> subseq (map fst tr) ps
     \<and> (\<forall>x\<in>set (butlast tr). \<not> snd x)
     \<and> (if \<forall>x\<in>set tr. \<not> snd x
        then r = getOfflineFallbackResponse (LLMRequest.message request)
          \<and> currentProvider st' = currentProvider st
        else tr \<noteq> [] \<and> last tr = (currentProvider st', True)
          \<and> LLMResponse.provider r = LLMProvider.name (FREE_LLM_PROVIDERS (currentProvider st')))"
proof -
  obtain res st'' where loop: "fallbackLoop w env request ps st = (res, st'')"
    by (cases "fallbackLoop w env request ps st")
  from fallbackLoop_trace [OF loop] obtain tr where tr: "invocations st'' = invocations st @ tr"
    "subseq (map fst tr) ps" "\<forall>x\<in>set (butlast tr). \<not> snd x"
    "case res of
        None \<Rightarrow> (\<forall>x\<in>set tr. \<not> snd x) \<and> currentProvider st'' = currentProvider st
      | Some r \<Rightarrow> tr \<noteq> [] \<and> last tr = (currentProvider st'', True)
          \<and> LLMResponse.provider r = LLMProvider.name (FREE_LLM_PROVIDERS (currentProvider st''))"
    by blast
  show ?thesis
  proof (cases res)
    case None
    with assms loop tr show ?thesis
      by (intro exI [of _ tr]) (simp add: tryFallbackProviders_def)
  next
    case (Some r1)
    with tr(4) have "tr \<noteq> []" and l: "last tr = (currentProvider st'', True)" by simp_all
    from \<open>tr \<noteq> []\<close> have "last tr \<in> set tr" by (rule last_in_set)
    with l have "\<not> (\<forall>x\<in>set tr. \<not> snd x)" by force
    with assms loop tr Some show ?thesis
      by (intro exI [of _ tr]) (auto simp add: tryFallbackProviders_def)
  qed
qed

lemmas run_simps =
  processMessage_def hasConfiguredProviders_def getAvailableProviders_def
  actualProvider_def plain_request_def initial_def isRateLimited_def
  Date_now_def callLLMProvider_def tryFallbackProviders_def updateRequestCount_def
  FREE_LLM_PROVIDERS_def Let_def

lemma processMessage_trace:
  assumes av: "getAvailableProviders env = first # others"
    and a: "a = actualProvider (first # others) request st first"
    and run: "processMessage w env request st = (r, st')"
  shows "\<exists>tr. invocations st' = invocations st @ tr
     \<and> subseq (map fst tr) (a # first # others)
     \<and> (\<forall>x\<in>set (butlast tr). \<not> snd x)
     \<and> (if \<forall>x\<in>set tr. \<not> snd x
        then r = getOfflineFallbackResponse (LLMRequest.message request)
        else tr \<noteq> [] \<and> (\<exists>q. last tr = (q, True)
          \<and> LLMResponse.provider r = LLMProvider.name (FREE_LLM_PROVIDERS q)))"
proof -
  obtain b st1 where rl: "isRateLimited w a st = (b, st1)" by (cases "isRateLimited w a st")
  note f1 = isRateLimited_fields [OF rl]
  obtain res st2 where call: "callLLMProvider w env a request st1 = (res, st2)"
    by (cases "callLLMProvider w env a request st1")
  note f2 = callLLMProvider_fields [OF call]
  show ?thesis
  proof (cases b)
    case True
    with av a rl run have "tryFallbackProviders w env request (Some (first # others)) st1 = (r, st')"
      by (simp add: processMessage_throttled)
    from tryFallbackProviders_trace [OF this] obtain tr where
      tr: "invocations st' = invocations st1 @ tr" "subseq (map fst tr) (first # others)"
        "\<forall>x\<in>set (butlast tr). \<not> snd x"
        "if \<forall>x\<in>set tr. \<not> snd x
         then r = getOfflineFallbackResponse (LLMRequest.message request)
           \<and> currentProvider st' = currentProvider st1
         else tr \<noteq> [] \<and> last tr = (currentProvider st', True)
           \<and> LLMResponse.provider r = LLMProvider.name (FREE_LLM_PROVIDERS (currentProvider st'))"
      by blast
    from tr(2) have "subseq (map fst tr) (a # first # others)" by (rule list_emb_Cons)
    with tr f1 show ?thesis by (intro exI [of _ tr]) (auto split: if_splits)
  next
    case False
    show ?thesis
    proof (cases res)
      case (Inr r0)
      with av a rl False call run
      have "r = r0\<lparr>provider := LLMProvider.name (FREE_LLM_PROVIDERS a)\<rparr>"
        and "st' = updateRequestCount w a st2"
        by (simp_all add: processMessage_answered [OF av a [symmetric]])
      with f1 f2 Inr show ?thesis
        by (intro exI [of _ "[(a, True)]"]) (simp add: updateRequestCount_fields)
    next
      case (Inl e)
      with av a rl False call run
      have "tryFallbackProviders w env request (Some (first # others)) st2 = (r, st')"
        by (simp add: processMessage_failed [OF av a [symmetric]])
      from tryFallbackProviders_trace [OF this] obtain tr where
        tr: "invocations st' = invocations st2 @ tr" "subseq (map fst tr) (first # others)"
          "\<forall>x\<in>set (butlast tr). \<not> snd x"
          "if \<forall>x\<in>set tr. \<not> snd x
           then r = getOfflineFallbackResponse (LLMRequest.message request)
             \<and> currentProvider st' = currentProvider st2
           else tr \<noteq> [] \<and> last tr = (currentProvider st', True)
             \<and> LLMResponse.provider r = LLMProvider.name (FREE_LLM_PROVIDERS (currentProvider st'))"
        by blast
      from tr(2) have "subseq (map fst ((a, False) # tr)) (a # first # others)" by simp
      with tr f1 f2 Inl show ?thesis
        by (intro exI [of _ "(a, False) # tr"]) (auto split: if_splits)
    qed
  qed
qed




text \<open>
  Claim C2. When no provider has a valid key (\<^verbatim>\<open>getValidApiKey\<close> rejects a key that is
  absent, empty, blank after trimming, or contains \<^verbatim>\<open>your_\<close> or \<^verbatim>\<open>_api_key_here\<close>),
  the reply carries the provider label \<^verbatim>\<open>Configuration Helper\<close> and confidence 1.0; the
  state is left as it was.
\<close>

theorem configuration_required:
  assumes "\<forall>p. getValidApiKey env p = None"
  shows "LLMResponse.provider (fst (processMessage w env request st)) = ''Configuration Helper''
    \<and> confidence (fst (processMessage w env request st)) = 1.0
    \<and> snd (processMessage w env request st) = st"
proof -
  from assms have "getAvailableProviders env = []"
    by (simp add: getAvailableProviders_def)
  then show ?thesis
    by (simp add: processMessage_unconfigured getConfigurationRequiredResponse_def)
qed

theorem configuration_required_witness:
  "LLMResponse.provider
     (fst (processMessage world_down env_blank (plain_request ''hello'') initial))
     = ''Configuration Helper''
   \<and> confidence
     (fst (processMessage world_down env_blank (plain_request ''hello'') initial)) = 1.0
   \<and> LLMResponse.provider
     (fst (processMessage world_down env_placeholders (plain_request ''hello'') initial))
     = ''Configuration Helper''"
proof -
  have blank: "\<forall>p. getValidApiKey env_blank p = None"
    by (simp add: keys_blank)
  have placeholders: "\<forall>p. getValidApiKey env_placeholders p = None"
    by (simp add: keys_placeholders)
  from configuration_required [OF blank] configuration_required [OF placeholders]
  show ?thesis by blast
qed

text \<open>
  The invocations of one call of \<^verbatim>\<open>processMessage\<close>, in their order, form a
  subsequence of the first choice followed by the list of available providers: there
  is one first attempt and then one pass over the list, and no invocation follows a
  successful one. Every provider other than the first choice is invoked at most once.
\<close>

lemma invocations_of_call:
  "\<exists>tr. invocations (snd (processMessage w env request st)) = invocations st @ tr
     \<and> (\<forall>x\<in>set (butlast tr). \<not> snd x)
     \<and> (case getAvailableProviders env of
          [] \<Rightarrow> tr = []
        | first # others \<Rightarrow>
            subseq (map fst tr) (actualProvider (first # others) request st first # first # others)
            \<and> (\<forall>p. count_list (map fst tr) p
                  \<le> (if p = actualProvider (first # others) request st first then 2 else 1)))"
proof (cases "getAvailableProviders env")
  case Nil
  then show ?thesis by (simp add: processMessage_unconfigured)
next
  case (Cons first others)
  let ?a = "actualProvider (first # others) request st first"
  obtain r st' where run: "processMessage w env request st = (r, st')"
    by (cases "processMessage w env request st")
  from processMessage_trace [OF Cons refl run] obtain tr where
    tr: "invocations st' = invocations st @ tr"
      "subseq (map fst tr) (?a # first # others)"
      "\<forall>x\<in>set (butlast tr). \<not> snd x"
    by blast
  have "count_list (map fst tr) p \<le> (if p = ?a then 2 else 1)" for p
  proof -
    have "count_list (map fst tr) p \<le> count_list (?a # first # others) p"
      using tr(2) by (rule subseq_count_list)
    moreover have "count_list (first # others) p \<le> 1"
      using distinct_available [of env] unfolding Cons by (rule count_list_distinct)
    ultimately show ?thesis by (simp split: if_splits)
  qed
  with tr run Cons show ?thesis by (intro exI [of _ tr]) simp
qed

text \<open>
  Claim C6 at a run in which Groq is the only configured provider and every exchange is
  rejected: the first attempt on Groq fails, and \<^verbatim>\<open>tryFallbackProviders\<close>, which is
  handed the whole list of available providers, invokes Groq a second time before the
  offline reply is returned.
\<close>

theorem failed_provider_retried:
  "getAvailableProviders env_groq = [GROQ]
   \<and> invocations (snd (processMessage world_down env_groq (plain_request ''hello'') initial))
     = [(GROQ, False), (GROQ, False)]
   \<and> LLMResponse.provider
       (fst (processMessage world_down env_groq (plain_request ''hello'') initial))
     = ''Offline Fallback''"
  by (simp add: run_simps keys_groq world_down_def getOfflineFallbackResponse_def)

text \<open>
  Recording of requests. The first attempt records the request when it succeeds.
\<close>

lemma first_attempt_recorded:
  assumes "getAvailableProviders env = first # others"
    and "actualProvider (first # others) request st first = a"
    and "isRateLimited w a st = (False, st1)"
    and "callLLMProvider w env a request st1 = (Inr r, st2)"
  shows "requestCounts (snd (processMessage w env request st)) a \<noteq> None"
  by (simp add: processMessage_answered [OF assms] updateRequestCount_def Date_now_def Let_def
      split: option.splits)

text \<open>
  Claim C7 at a run in which Groq, the first choice, fails and Together AI answers in
  the fallback pass: the reply is annotated with \<^verbatim>\<open>Together AI\<close>, and no rate state
  exists for Together AI afterwards, since \<^verbatim>\<open>tryFallbackProviders\<close> does not call
  \<^verbatim>\<open>updateRequestCount\<close>.
\<close>

theorem fallback_not_recorded:
  "LLMResponse.provider
     (fst (processMessage world_groq_down env_groq_together (plain_request ''hello'') initial))
     = ''Together AI''
   \<and> invocations
     (snd (processMessage world_groq_down env_groq_together (plain_request ''hello'') initial))
     = [(GROQ, False), (GROQ, False), (TOGETHER, True)]
   \<and> requestCounts
     (snd (processMessage world_groq_down env_groq_together (plain_request ''hello'') initial))
     TOGETHER = None"
  by (simp add: run_simps keys_groq_together world_groq_down_def)

lemma available_iff: "p \<in> set (getAvailableProviders env) \<longleftrightarrow> getValidApiKey env p \<noteq> None"
  by (cases p) (auto simp: getAvailableProviders_def)

lemma available_filter:
  "getAvailableProviders env = filter (\<lambda>p. getValidApiKey env p \<noteq> None) fallbackOrder"
  by (simp add: getAvailableProviders_def fallbackOrder_def)

lemma find_filter_hd: "filter P xs = y # ys \<Longrightarrow> List.find P xs = Some y"
  by (induction xs) (auto split: if_splits)

text \<open>
  Claim C8, as amended. Let some provider be configured, and let \<open>first\<close> be the head
  of the available providers, which is the first provider of the order Groq, Together
  AI, Cohere, Hugging Face with a valid key. The first attempt goes to \<open>first\<close> when
  the caller names a provider without a valid key, or names none while
  \<^verbatim>\<open>currentProvider\<close> has no valid key. When the caller names none and
  \<^verbatim>\<open>currentProvider\<close> has a valid key, the first attempt goes to \<^verbatim>\<open>currentProvider\<close>,
  which is Groq after construction (then the choice is \<open>first\<close> again). The rate
  check of \<^verbatim>\<open>processMessage\<close> and, unless that provider is throttled, its first
  invocation are made on this choice. The call changes \<^verbatim>\<open>currentProvider\<close> in one case
  only: when the choice is throttled or fails and an invocation of the fallback pass
  succeeds, \<^verbatim>\<open>currentProvider\<close> becomes the provider of that invocation, the last of
  the pass, whose name the reply carries. When the first attempt answers, and when no
  invocation of the pass succeeds, \<^verbatim>\<open>currentProvider\<close> is left as it was.
\<close>

theorem first_choice:
  assumes av: "getAvailableProviders env = first # others"
  shows "List.find (\<lambda>p. getValidApiKey env p \<noteq> None) fallbackOrder = Some first
    \<and> actualProvider (first # others) request st first =
        (case LLMRequest.provider request of
           Some p \<Rightarrow> if getValidApiKey env p = None then first else p
         | None \<Rightarrow>
             if getValidApiKey env (currentProvider st) = None then first
             else currentProvider st)
    \<and> (if LLMRequest.provider request = None \<and> currentProvider st = GROQ
       then actualProvider (first # others) request st first = first
       else True)
    \<and> (\<exists>b st1. isRateLimited w (actualProvider (first # others) request st first) st = (b, st1)
         \<and> (if b
            then processMessage w env request st
                 = tryFallbackProviders w env request (Some (first # others)) st1
            else \<exists>ok tr. invocations (snd (processMessage w env request st))
                 = invocations st @ (actualProvider (first # others) request st first, ok) # tr))
    \<and> currentProvider initial = GROQ
    \<and> (\<exists>b st1 res st2 tr.
          isRateLimited w (actualProvider (first # others) request st first) st = (b, st1)
        \<and> callLLMProvider w env (actualProvider (first # others) request st first) request st1
            = (res, st2)
        \<and> invocations (snd (processMessage w env request st))
            = invocations st
              @ (if b then [] else [(actualProvider (first # others) request st first, \<not> isl res)])
              @ tr
        \<and> (if \<not> b \<and> \<not> isl res
           then tr = []
             \<and> currentProvider (snd (processMessage w env request st)) = currentProvider st
           else if \<forall>x\<in>set tr. \<not> snd x
           then currentProvider (snd (processMessage w env request st)) = currentProvider st
           else last tr = (currentProvider (snd (processMessage w env request st)), True)
             \<and> LLMResponse.provider (fst (processMessage w env request st))
               = LLMProvider.name
                   (FREE_LLM_PROVIDERS (currentProvider (snd (processMessage w env request st))))))"
proof -
  let ?a = "actualProvider (first # others) request st first"
  have mem: "p \<in> set (first # others) \<longleftrightarrow> getValidApiKey env p \<noteq> None" for p
    using available_iff [of p env] by (simp add: av)
  have one: "List.find (\<lambda>p. getValidApiKey env p \<noteq> None) fallbackOrder = Some first"
    using av unfolding available_filter by (rule find_filter_hd)
  have two: "?a =
        (case LLMRequest.provider request of
           Some p \<Rightarrow> if getValidApiKey env p = None then first else p
         | None \<Rightarrow>
             if getValidApiKey env (currentProvider st) = None then first
             else currentProvider st)"
    unfolding actualProvider_def Let_def mem by (auto split: option.splits)
  have groq: "getValidApiKey env GROQ \<noteq> None \<Longrightarrow> first = GROQ"
    using av by (simp add: getAvailableProviders_def)
  have three: "LLMRequest.provider request = None \<and> currentProvider st = GROQ \<Longrightarrow> ?a = first"
    using groq by (auto simp: two)
  obtain b st1 where rl: "isRateLimited w ?a st = (b, st1)" by (cases "isRateLimited w ?a st")
  have four: "if b
      then processMessage w env request st
           = tryFallbackProviders w env request (Some (first # others)) st1
      else \<exists>ok tr. invocations (snd (processMessage w env request st))
           = invocations st @ (?a, ok) # tr"
  proof (cases b)
    case True
    with av rl show ?thesis by (simp add: processMessage_throttled)
  next
    case False
    obtain res st2 where call: "callLLMProvider w env ?a request st1 = (res, st2)"
      by (cases "callLLMProvider w env ?a request st1")
    note f1 = isRateLimited_fields [OF rl]
    note f2 = callLLMProvider_fields [OF call]
    show ?thesis
    proof (cases res)
      case (Inr r)
      with av rl False call f1 f2 show ?thesis
        by (auto simp add: processMessage_answered [OF av refl] updateRequestCount_fields)
    next
      case (Inl e)
      obtain r st' where fb:
        "tryFallbackProviders w env request (Some (first # others)) st2 = (r, st')"
        by (cases "tryFallbackProviders w env request (Some (first # others)) st2")
      from tryFallbackProviders_trace [OF fb] obtain tr where
        "invocations st' = invocations st2 @ tr" by blast
      with av rl False call f1 f2 Inl fb show ?thesis
        by (auto simp add: processMessage_failed [OF av refl])
    qed
  qed
  obtain res st2 where call: "callLLMProvider w env ?a request st1 = (res, st2)"
    by (cases "callLLMProvider w env ?a request st1")
  note f1 = isRateLimited_fields [OF rl]
  note f2 = callLLMProvider_fields [OF call]
  let ?run = "processMessage w env request st"
  have five: "\<exists>tr. invocations (snd ?run)
        = invocations st @ (if b then [] else [(?a, \<not> isl res)]) @ tr
      \<and> (if \<not> b \<and> \<not> isl res
         then tr = [] \<and> currentProvider (snd ?run) = currentProvider st
         else if \<forall>x\<in>set tr. \<not> snd x
         then currentProvider (snd ?run) = currentProvider st
         else last tr = (currentProvider (snd ?run), True)
           \<and> LLMResponse.provider (fst ?run)
             = LLMProvider.name (FREE_LLM_PROVIDERS (currentProvider (snd ?run))))"
  proof (cases "\<not> b \<and> \<not> isl res")
    case True
    then obtain r where res: "res = Inr r" by (cases res) auto
    from True have nb: "\<not> b" by simp
    have "?run = (r\<lparr>provider := LLMProvider.name (FREE_LLM_PROVIDERS ?a)\<rparr>,
        updateRequestCount w ?a st2)"
      using rl call nb res by (simp add: processMessage_answered [OF av refl])
    with True f1 f2 res show ?thesis
      by (intro exI [of _ "[]"]) (simp add: updateRequestCount_fields)
  next
    case False
    let ?st0 = "if b then st1 else st2"
    have pass: "?run = tryFallbackProviders w env request (Some (first # others)) ?st0"
    proof (cases b)
      case True
      with av rl show ?thesis by (simp add: processMessage_throttled)
    next
      case nb: False
      with False obtain e where "res = Inl e" by (cases res) auto
      with av rl call nb show ?thesis by (simp add: processMessage_failed [OF av refl])
    qed
    obtain r st' where fb:
      "tryFallbackProviders w env request (Some (first # others)) ?st0 = (r, st')"
      by (cases "tryFallbackProviders w env request (Some (first # others)) ?st0")
    from tryFallbackProviders_trace [OF fb] obtain tr where
      tr: "invocations st' = invocations ?st0 @ tr"
        "if \<forall>x\<in>set tr. \<not> snd x
         then r = getOfflineFallbackResponse (LLMRequest.message request)
           \<and> currentProvider st' = currentProvider ?st0
         else tr \<noteq> [] \<and> last tr = (currentProvider st', True)
           \<and> LLMResponse.provider r = LLMProvider.name (FREE_LLM_PROVIDERS (currentProvider st'))"
      by blast
    have start: "invocations ?st0 = invocations st @ (if b then [] else [(?a, \<not> isl res)])"
      "currentProvider ?st0 = currentProvider st"
      using f1 f2 by simp_all
    from False tr start pass fb show ?thesis
      by (intro exI [of _ tr]) (auto split: if_splits)
  qed
  have six: "currentProvider initial = GROQ" by (simp add: initial_def)
  from five obtain tr where
    tr: "invocations (snd ?run)
        = invocations st @ (if b then [] else [(?a, \<not> isl res)]) @ tr
      \<and> (if \<not> b \<and> \<not> isl res
         then tr = [] \<and> currentProvider (snd ?run) = currentProvider st
         else if \<forall>x\<in>set tr. \<not> snd x
         then currentProvider (snd ?run) = currentProvider st
         else last tr = (currentProvider (snd ?run), True)
           \<and> LLMResponse.provider (fst ?run)
             = LLMProvider.name (FREE_LLM_PROVIDERS (currentProvider (snd ?run))))"
    by blast
  have seven: "\<exists>b st1 res st2 tr.
          isRateLimited w ?a st = (b, st1)
        \<and> callLLMProvider w env ?a request st1 = (res, st2)
        \<and> invocations (snd ?run)
            = invocations st @ (if b then [] else [(?a, \<not> isl res)]) @ tr
        \<and> (if \<not> b \<and> \<not> isl res
           then tr = [] \<and> currentProvider (snd ?run) = currentProvider st
           else if \<forall>x\<in>set tr. \<not> snd x
           then currentProvider (snd ?run) = currentProvider st
           else last tr = (currentProvider (snd ?run), True)
             \<and> LLMResponse.provider (fst ?run)
               = LLMProvider.name (FREE_LLM_PROVIDERS (currentProvider (snd ?run))))"
    using rl call tr by blast
  have old: "\<exists>b st1. isRateLimited w ?a st = (b, st1)
         \<and> (if b
            then processMessage w env request st
                 = tryFallbackProviders w env request (Some (first # others)) st1
            else \<exists>ok tr. invocations (snd (processMessage w env request st))
                 = invocations st @ (?a, ok) # tr)"
    using four rl by blast
  from one two three old six seven show ?thesis by simp
qed

theorem first_choice_witness:
  "List.find (\<lambda>p. getValidApiKey env_groq_together p \<noteq> None) fallbackOrder = Some GROQ
   \<and> actualProvider [GROQ, TOGETHER] (plain_request ''again'') initial GROQ = GROQ"
proof -
  have av: "getAvailableProviders env_groq_together = [GROQ, TOGETHER]"
    by (simp add: getAvailableProviders_def keys_groq_together)
  from first_choice [OF av, of "plain_request ''again''" initial world_down]
  show ?thesis by (simp add: plain_request_def initial_def)
qed

text \<open>
  The claim as stated fails after a call in which Groq failed and Together AI answered:
  with the same configuration and no provider named, the next call goes to Together AI
  first, although Groq is the first configured provider.
\<close>

theorem first_choice_counterexample:
  "LLMRequest.provider (plain_request ''again'') = None
   \<and> getAvailableProviders env_groq_together = [GROQ, TOGETHER]
   \<and> actualProvider [GROQ, TOGETHER] (plain_request ''again'') initial GROQ = GROQ
   \<and> actualProvider [GROQ, TOGETHER] (plain_request ''again'') after_fallback GROQ = TOGETHER
   \<and> invocations (snd (processMessage world_groq_down env_groq_together
        (plain_request ''again'') after_fallback))
     = invocations after_fallback @ [(TOGETHER, True)]"
  by (simp add: after_fallback_def run_simps keys_groq_together world_groq_down_def)

subsection \<open>Falling back from a throttled provider\<close>

lemma isRateLimited_throttled:
  assumes "throttledThroughout w st p"
  shows "isRateLimited w p st = (True, st\<lparr>clockReads := Suc (clockReads st)\<rparr>)"
proof -
  from assms obtain d where d: "requestCounts st p = Some d"
    "rateLimit (FREE_LLM_PROVIDERS p) \<le> count d" "\<forall>i. clock w (clockReads st + i) \<le> resetTime d"
    by (auto simp: throttledThroughout_def split: option.splits)
  from d(3) have "clock w (clockReads st) \<le> resetTime d" by (metis add.right_neutral)
  with d show ?thesis by (simp add: isRateLimited_def Date_now_def)
qed

lemma isRateLimited_available:
  assumes "neverThrottled w st p"
  shows "fst (isRateLimited w p st) = False"
proof (cases "requestCounts st p")
  case None
  then show ?thesis by (simp add: isRateLimited_def Date_now_def)
next
  case (Some d)
  with assms have "count d < rateLimit (FREE_LLM_PROVIDERS p)
      \<or> (\<forall>i. resetTime d < clock w (clockReads st + i))"
    by (simp add: neverThrottled_def)
  then have "count d < rateLimit (FREE_LLM_PROVIDERS p) \<or> resetTime d < clock w (clockReads st)"
    by (metis add.right_neutral)
  with Some show ?thesis by (auto simp: isRateLimited_def Date_now_def)
qed

lemma throttled_kept:
  assumes "isRateLimited w q st = (b, st1)" and "throttledThroughout w st p"
  shows "throttledThroughout w st1 p"
proof -
  from assms(2) obtain d where d: "requestCounts st p = Some d"
    "rateLimit (FREE_LLM_PROVIDERS p) \<le> count d" "\<forall>i. clock w (clockReads st + i) \<le> resetTime d"
    by (auto simp: throttledThroughout_def split: option.splits)
  from d(3) have now: "clock w (clockReads st) \<le> resetTime d" by (metis add.right_neutral)
  have later: "clock w (Suc (clockReads st) + i) \<le> resetTime d" for i
    using d(3) [rule_format, of "Suc i"] by simp
  from assms(1) d(1) now have "requestCounts st1 p = Some d" "clockReads st1 = Suc (clockReads st)"
    by (auto simp: isRateLimited_def Date_now_def split: option.splits if_splits)
  with d(2) later show ?thesis by (simp add: throttledThroughout_def)
qed

lemma available_kept:
  assumes "isRateLimited w q st = (b, st1)" and "neverThrottled w st p"
  shows "neverThrottled w st1 p"
proof (cases "requestCounts st1 p")
  case None
  then show ?thesis by (simp add: neverThrottled_def)
next
  case (Some d)
  with isRateLimited_fields(4) [OF assms(1), of p] have same: "requestCounts st p = Some d"
    by auto
  have reads: "clockReads st1 = Suc (clockReads st)" by (rule isRateLimited_fields(3) [OF assms(1)])
  from assms(2) same have "count d < rateLimit (FREE_LLM_PROVIDERS p)
      \<or> (\<forall>i. resetTime d < clock w (clockReads st + i))"
    by (simp add: neverThrottled_def)
  then have "count d < rateLimit (FREE_LLM_PROVIDERS p)
      \<or> (\<forall>i. resetTime d < clock w (Suc (clockReads st) + i))"
    by (metis add_Suc_shift)
  with Some reads show ?thesis by (simp add: neverThrottled_def)
qed

lemma call_keeps:
  assumes "callLLMProvider w env q request st = (res, st2)"
  shows "throttledThroughout w st2 p = throttledThroughout w st p"
    and "neverThrottled w st2 p = neverThrottled w st p"
  using callLLMProvider_fields [OF assms]
  by (simp_all add: throttledThroughout_def neverThrottled_def cong: option.case_cong)

lemma call_rejected:
  assumes "alwaysRejected w q"
  shows "\<exists>e st2. callLLMProvider w env q request st = (Inl e, st2)"
  using assms
  by (auto simp: callLLMProvider_def alwaysRejected_def Let_def split: option.splits)

lemma call_completed:
  assumes "alwaysCompleted w q" and "getValidApiKey env q \<noteq> None"
  shows "\<exists>r st2. callLLMProvider w env q request st = (Inr r, st2)"
proof -
  from assms(2) obtain key where key: "getValidApiKey env q = Some key" by auto
  from assms(1) obtain x where
    "fetch w (length (invocations st)) q (buildCatCentralPrompt request) = Completed x"
    unfolding alwaysCompleted_def
    by (cases "fetch w (length (invocations st)) q (buildCatCentralPrompt request)") auto
  with key show ?thesis by (simp add: callLLMProvider_def Let_def)
qed


text \<open>
  The fallback pass over a list in which every provider before \<open>B\<close> is throttled
  throughout or always rejected, while \<open>B\<close> is configured, never throttled and always
  completes: the pass ends at \<open>B\<close>.
\<close>

lemma fallbackLoop_reaches:
  assumes "\<forall>C\<in>set before. throttledThroughout w st C \<or> alwaysRejected w C"
    and "getValidApiKey env B \<noteq> None" and "neverThrottled w st B" and "alwaysCompleted w B"
  shows "\<exists>r st' tr. fallbackLoop w env request (before @ B # after) st = (Some r, st')
    \<and> LLMResponse.provider r = LLMProvider.name (FREE_LLM_PROVIDERS B)
    \<and> invocations st' = invocations st @ tr
    \<and> (\<forall>A. throttledThroughout w st A \<longrightarrow> A \<notin> fst ` set tr)"
  using assms(1,3)
proof (induction before arbitrary: st)
  case Nil
  obtain b st1 where rl: "isRateLimited w B st = (b, st1)" by (cases "isRateLimited w B st")
  with isRateLimited_available [OF Nil.prems(2)] have b: "b = False" by simp
  from call_completed [OF assms(4) assms(2)] obtain r0 st2 where
    call: "callLLMProvider w env B request st1 = (Inr r0, st2)" by blast
  note f1 = isRateLimited_fields [OF rl]
  note f2 = callLLMProvider_fields [OF call]
  have "B \<noteq> A" if "throttledThroughout w st A" for A
    using that Nil.prems(2) isRateLimited_throttled [of w st A] rl b by auto
  with rl b call f1 f2 show ?case
    by (intro exI [of _ "r0\<lparr>provider := LLMProvider.name (FREE_LLM_PROVIDERS B)\<rparr>"]
        exI [of _ "st2\<lparr>currentProvider := B\<rparr>"] exI [of _ "[(B, True)]"]) auto
next
  case (Cons C before)
  obtain b st1 where rl: "isRateLimited w C st = (b, st1)" by (cases "isRateLimited w C st")
  note f1 = isRateLimited_fields [OF rl]
  have kept1: "throttledThroughout w st1 p" if "throttledThroughout w st p" for p
    using throttled_kept [OF rl that] .
  have avail1: "neverThrottled w st1 B" using available_kept [OF rl Cons.prems(2)] .
  show ?case
  proof (cases b)
    case True
    have pre: "\<forall>C\<in>set before. throttledThroughout w st1 C \<or> alwaysRejected w C"
      using Cons.prems(1) kept1 by auto
    from Cons.IH [OF pre avail1] obtain r st' tr where
      ih: "fallbackLoop w env request (before @ B # after) st1 = (Some r, st')"
        "LLMResponse.provider r = LLMProvider.name (FREE_LLM_PROVIDERS B)"
        "invocations st' = invocations st1 @ tr"
        "\<forall>A. throttledThroughout w st1 A \<longrightarrow> A \<notin> fst ` set tr"
      by blast
    from ih rl True f1 kept1 show ?thesis
      by (intro exI [of _ r] exI [of _ st'] exI [of _ tr]) auto
  next
    case False
    with rl isRateLimited_throttled [of w st C] have notC: "\<not> throttledThroughout w st C" by auto
    with Cons.prems(1) have "alwaysRejected w C" by auto
    from call_rejected [OF this] obtain e st2 where
      call: "callLLMProvider w env C request st1 = (Inl e, st2)" by blast
    note f2 = callLLMProvider_fields [OF call]
    note k2 = call_keeps [OF call]
    have pre: "\<forall>C\<in>set before. throttledThroughout w st2 C \<or> alwaysRejected w C"
      using Cons.prems(1) kept1 k2 by auto
    have avail2: "neverThrottled w st2 B" using avail1 k2 by simp
    from Cons.IH [OF pre avail2] obtain r st' tr where
      ih: "fallbackLoop w env request (before @ B # after) st2 = (Some r, st')"
        "LLMResponse.provider r = LLMProvider.name (FREE_LLM_PROVIDERS B)"
        "invocations st' = invocations st2 @ tr"
        "\<forall>A. throttledThroughout w st2 A \<longrightarrow> A \<notin> fst ` set tr"
      by blast
    from ih rl False call f1 f2 kept1 k2 notC show ?thesis
      by (intro exI [of _ r] exI [of _ st'] exI [of _ "(C, False) # tr"]) auto
  qed
qed

text \<open>
  When \<open>A\<close> and \<open>B\<close> are the only configured providers, the only provider that can
  precede \<open>B\<close> is \<open>A\<close>.
\<close>

lemma two_providers_before:
  assumes "set (getAvailableProviders env) = {A, B}" and "throttledThroughout w st A"
  shows "\<forall>C\<in>set (takeWhile (\<lambda>x. x \<noteq> B) (getAvailableProviders env)).
    throttledThroughout w st C \<or> alwaysRejected w C"
proof
  fix C
  assume "C \<in> set (takeWhile (\<lambda>x. x \<noteq> B) (getAvailableProviders env))"
  then have "C \<in> set (getAvailableProviders env)" and "C \<noteq> B"
    by (auto dest: set_takeWhileD)
  with assms show "throttledThroughout w st C \<or> alwaysRejected w C" by auto
qed

text \<open>
  The call for a throttled provider \<open>A\<close> ends at \<open>B\<close> when every configured provider
  that precedes \<open>B\<close> in the order is throttled throughout or has every exchange
  rejected.
\<close>

lemma fallback_reaches_first:
  assumes named: "LLMRequest.provider request = Some A"
    and keyA: "getValidApiKey env A \<noteq> None"
    and thrA: "throttledThroughout w st A"
    and keyB: "getValidApiKey env B \<noteq> None"
    and avB: "neverThrottled w st B"
    and okB: "alwaysCompleted w B"
    and before: "\<forall>C\<in>set (takeWhile (\<lambda>x. x \<noteq> B) (getAvailableProviders env)).
        throttledThroughout w st C \<or> alwaysRejected w C"
  shows "LLMResponse.provider (fst (processMessage w env request st))
      = LLMProvider.name (FREE_LLM_PROVIDERS B)
    \<and> A \<notin> fst ` set (drop (length (invocations st))
          (invocations (snd (processMessage w env request st))))"
proof -
  let ?aps = "getAvailableProviders env"
  from keyA have "A \<in> set ?aps" by (simp add: available_iff)
  then obtain first others where av: "?aps = first # others" by (cases ?aps) auto
  from \<open>A \<in> set ?aps\<close> named have actual: "actualProvider (first # others) request st first = A"
    by (simp add: actualProvider_def av)
  let ?st1 = "st\<lparr>clockReads := Suc (clockReads st)\<rparr>"
  have rl: "isRateLimited w A st = (True, ?st1)" by (rule isRateLimited_throttled [OF thrA])
  have run: "processMessage w env request st
      = tryFallbackProviders w env request (Some (first # others)) ?st1"
    using av actual rl by (simp add: processMessage_throttled)
  from keyB have "B \<in> set ?aps" by (simp add: available_iff)
  then have split: "?aps = takeWhile (\<lambda>x. x \<noteq> B) ?aps @ B # tl (dropWhile (\<lambda>x. x \<noteq> B) ?aps)"
    by (metis (mono_tags, lifting) dropWhile_eq_Nil_conv hd_dropWhile list.collapse
        takeWhile_dropWhile_id)
  have pre1: "\<forall>C\<in>set (takeWhile (\<lambda>x. x \<noteq> B) ?aps).
      throttledThroughout w ?st1 C \<or> alwaysRejected w C"
    using before throttled_kept [OF rl] by auto
  have av1: "neverThrottled w ?st1 B" by (rule available_kept [OF rl avB])
  from fallbackLoop_reaches [OF pre1 keyB av1 okB, of request "tl (dropWhile (\<lambda>x. x \<noteq> B) ?aps)"]
  obtain r st' tr where
    loop: "fallbackLoop w env request ?aps ?st1 = (Some r, st')"
      "LLMResponse.provider r = LLMProvider.name (FREE_LLM_PROVIDERS B)"
      "invocations st' = invocations ?st1 @ tr"
      "\<forall>A. throttledThroughout w ?st1 A \<longrightarrow> A \<notin> fst ` set tr"
    using split by metis
  from loop(4) throttled_kept [OF rl thrA] have "A \<notin> fst ` set tr" by blast
  with loop run av show ?thesis by (simp add: tryFallbackProviders_def)
qed

text \<open>
  Claim C5, as amended. Let \<open>A\<close> and \<open>B\<close> be the configured providers. Let the caller
  name \<open>A\<close>, and let \<open>A\<close> be throttled throughout the call: its window is full, and no
  reading of the clock during the call is past its reset time. Let \<open>B\<close> be available
  (never throttled during the call) and let every exchange with it be completed. Then
  the reply carries the display name of \<open>B\<close>, and \<open>A\<close> is not invoked during the call.
\<close>

theorem fallback_to_available:
  assumes named: "LLMRequest.provider request = Some A"
    and configured: "set (getAvailableProviders env) = {A, B}"
    and thrA: "throttledThroughout w st A"
    and avB: "neverThrottled w st B"
    and okB: "alwaysCompleted w B"
  shows "LLMResponse.provider (fst (processMessage w env request st))
      = LLMProvider.name (FREE_LLM_PROVIDERS B)
    \<and> A \<notin> fst ` set (drop (length (invocations st))
          (invocations (snd (processMessage w env request st))))"
proof -
  from configured have keyA: "getValidApiKey env A \<noteq> None"
    and keyB: "getValidApiKey env B \<noteq> None"
    using available_iff [of A env] available_iff [of B env] by auto
  from fallback_reaches_first [OF named keyA thrA keyB avB okB
      two_providers_before [OF configured thrA]]
  show ?thesis .
qed


lemma groq_spent_eq:
  "groq_spent = initial\<lparr>clockReads := 30,
     requestCounts := (requestCounts initial)(GROQ \<mapsto> \<lparr>count = 30, resetTime = 61000\<rparr>)\<rparr>"
proof -
  have "(updateRequestCount world_up GROQ ^^ Suc 29) initial =
    initial\<lparr>clockReads := clockReads initial + Suc 29,
       requestCounts := (requestCounts initial)(GROQ \<mapsto>
         \<lparr>count = Suc 29, resetTime = clock world_up (clockReads initial) + 60000\<rparr>)\<rparr>"
    by (rule record_budget) (simp_all add: initial_def world_up_def)
  then show ?thesis by (simp add: groq_spent_def initial_def world_up_def)
qed

lemma race_state_eq:
  "race_state = initial\<lparr>clockReads := 30,
     requestCounts := (requestCounts initial)(GROQ \<mapsto> \<lparr>count = 30, resetTime = 61000\<rparr>)\<rparr>"
proof -
  have "(updateRequestCount world_race GROQ ^^ Suc 29) initial =
    initial\<lparr>clockReads := clockReads initial + Suc 29,
       requestCounts := (requestCounts initial)(GROQ \<mapsto>
         \<lparr>count = Suc 29, resetTime = clock world_race (clockReads initial) + 60000\<rparr>)\<rparr>"
    by (rule record_budget) (simp_all add: initial_def world_race_def)
  then show ?thesis by (simp add: race_state_def initial_def world_race_def)
qed

theorem fallback_to_available_witness:
  "LLMResponse.provider
     (fst (processMessage world_up env_groq_together (request_to GROQ ''hello'') groq_spent))
     = ''Together AI''
   \<and> GROQ \<notin> fst ` set (drop (length (invocations groq_spent))
        (invocations (snd (processMessage world_up env_groq_together
           (request_to GROQ ''hello'') groq_spent))))"
proof -
  have named: "LLMRequest.provider (request_to GROQ ''hello'') = Some GROQ"
    by (simp add: request_to_def)
  have configured: "set (getAvailableProviders env_groq_together) = {GROQ, TOGETHER}"
    by (simp add: getAvailableProviders_def keys_groq_together)
  have thrA: "throttledThroughout world_up groq_spent GROQ"
    by (simp add: throttledThroughout_def groq_spent_eq initial_def world_up_def
        FREE_LLM_PROVIDERS_def)
  have avB: "neverThrottled world_up groq_spent TOGETHER"
    by (simp add: neverThrottled_def groq_spent_eq initial_def)
  have okB: "alwaysCompleted world_up TOGETHER"
    by (simp add: alwaysCompleted_def world_up_def)
  from fallback_to_available [OF named configured thrA avB okB]
  show ?thesis by (simp add: FREE_LLM_PROVIDERS_def)
qed

text \<open>
  The claim as stated fails when the window of the named provider runs out during the
  call. Groq and Together AI are configured and both answer; Groq is named, its window
  is full and is reset at 61000. The rate check of \<^verbatim>\<open>processMessage\<close> reads the time
  61000 and finds Groq throttled; the rate check of the fallback pass reads 61001, so
  Groq is no longer throttled and is invoked. The reply carries the name of Groq, not
  that of Together AI.
\<close>

theorem fallback_to_available_counterexample:
  "LLMRequest.provider (request_to GROQ ''hello'') = Some GROQ
   \<and> getAvailableProviders env_groq_together = [GROQ, TOGETHER]
   \<and> fst (isRateLimited world_race GROQ race_state) = True
   \<and> neverThrottled world_race race_state TOGETHER
   \<and> alwaysCompleted world_race TOGETHER
   \<and> LLMProvider.name (FREE_LLM_PROVIDERS TOGETHER) = ''Together AI''
   \<and> LLMResponse.provider
       (fst (processMessage world_race env_groq_together (request_to GROQ ''hello'') race_state))
     = ''Groq''
   \<and> drop (length (invocations race_state))
       (invocations (snd (processMessage world_race env_groq_together
          (request_to GROQ ''hello'') race_state)))
     = [(GROQ, True)]"
  by (simp add: run_simps request_to_def keys_groq_together neverThrottled_def
      alwaysCompleted_def race_state_eq world_race_def)

subsection \<open>The response parser\<close>

text \<open>
  Equations that run the matcher on a text: one character of a class, a literal as a
  whole, and a greedy star over a class, which takes the longest run first.
\<close>

lemma m_Sym_Nil: "m (Sym P) [] c k = None" by simp
lemma m_Sym_Cons: "m (Sym P) (x # t) c k = (if P x then k t c else None)" by simp

lemma retreat_snoc:
  "retreat (run @ [x]) rest c k =
     (case retreat run rest c k of Some r \<Rightarrow> Some r | None \<Rightarrow> k (x # rev run @ rest) c)"
  by (induction run arbitrary: rest) (auto split: option.splits)

lemma m_Star_Sym:
  "m (Star (Sym P)) s c k =
     (case k (dropWhile P s) c of
        Some r \<Rightarrow> Some r
      | None \<Rightarrow> retreat (rev (takeWhile P s)) (dropWhile P s) c k)"
proof (induction s)
  case Nil
  show ?case by (simp split: option.splits)
next
  case (Cons x t)
  have step: "m (Star (Sym P)) (x # t) c k =
     (if P x then (case m (Star (Sym P)) t c k of Some r \<Rightarrow> Some r | None \<Rightarrow> k (x # t) c)
      else k (x # t) c)"
    by simp
  show ?case
    unfolding step Cons.IH
    by (simp add: retreat_snoc split: option.splits)
qed

lemma m_Lazy_Sym_Nil: "m (Lazy (Sym P)) [] c k = k [] c"
  by (simp split: option.splits)
lemma m_Lazy_Sym_Cons:
  "m (Lazy (Sym P)) (x # t) c k =
     (case k (x # t) c of Some r \<Rightarrow> Some r
      | None \<Rightarrow> if P x then m (Lazy (Sym P)) t c k else None)"
  by (simp split: option.splits)
lemmas m_Star_Seq = m.simps(5) [where a = "Seq a b" for a b]

lemma m_lit_i:
  "m (lit_i l) s c k = (if starts_with_i l s then k (drop (length l) s) c else None)"
proof (induction l arbitrary: s)
  case Nil
  show ?case by (simp add: lit_i_def seqs_def)
next
  case (Cons a l)
  have "lit_i (a # l) = Seq (chr_i a) (lit_i l)" by (simp add: lit_i_def seqs_def)
  then show ?case by (cases s) (simp_all add: chr_i_def Cons.IH)
qed

lemmas m_eval = m_Sym_Nil m_Sym_Cons m_Star_Sym m_Lazy_Sym_Nil m_Lazy_Sym_Cons
  m_Star_Seq m_lit_i m.simps(2) m.simps(3) m.simps(4) m.simps(7)

declare m.simps [simp del]

lemmas re_simps =
  exec_here_def match_all_def seqs_def chr_i_def chr_def Plus_def Opt_def notchr_def
  space_def digit_def dot_def anychar_def lowerChar_def isWhiteSpace_def

lemma parse_suggestions:
  "suggestions (parseAIResponse rnd aiMessage request) =
     (if match_all part_re aiMessage = [] then None
      else Some (map (\<lambda>(i, matched). suggestion_of rnd request i matched)
                   (enumerate 0 (match_all part_re aiMessage))))"
  by (simp add: parseAIResponse_def Let_def)

lemma parse_faultCodeInfo:
  "faultCodeInfo (parseAIResponse rnd aiMessage request) =
     (case match_first fault_re aiMessage of
        None \<Rightarrow> None
      | Some (t, c) \<Rightarrow>
          Some \<lparr>code = orElse (map_option trim (c 1)) [],
                description = orElse (map_option trim (c 2)) [],
                severity = orElse (map_option (\<lambda>v. toLowerCase (trim v)) (c 3)) ''medium'',
                possibleCauses =
                  (case c 4 of None \<Rightarrow> [] | Some v \<Rightarrow> map trim (split CHR '','' v)),
                recommendedActions =
                  (case c 5 of None \<Rightarrow> [] | Some v \<Rightarrow> map trim (split CHR '','' v)),
                relatedParts = []\<rparr>)"
  by (simp add: parseAIResponse_def Let_def)

text \<open>
  Claim C10 at an answer whose severity line reads \<^verbatim>\<open>High - stop the machine\<close>: the
  fault-code pattern matches, and the record's severity is the whole line, trimmed and
  lower-cased, which is none of \<^verbatim>\<open>low\<close>, \<^verbatim>\<open>medium\<close>, \<^verbatim>\<open>high\<close>, \<^verbatim>\<open>critical\<close>.
\<close>

theorem severity_unchecked:
  "map_option severity
     (faultCodeInfo (parseAIResponse (\<lambda>j. 1 / 2) fault_answer (plain_request ''What is E101?'')))
     = Some ''high - stop the machine''
   \<and> ''high - stop the machine'' \<notin> {''low'', ''medium'', ''high'', ''critical''}"
  by (simp add: parse_faultCodeInfo fault_answer_def fault_re_def re_simps m_eval
      toLowerCase_def trim_simps)

text \<open>
  Claim C9 fails as stated on a text that holds the part line and no other line of that
  format, when a line before it ends in \<^verbatim>\<open>part:\<close>: the match starts there, and the name
  captured is \<^verbatim>\<open>Part: Oil Filter\<close>.
\<close>

theorem part_line_counterexample:
  "map_option (map (\<lambda>s. (partNumber s, PartSuggestion.name s, reasonForSuggestion s)))
     (suggestions (parseAIResponse (\<lambda>j. 1 / 2) (''I recommend this part:\<newline>'' @ part_line)
        (plain_request ''Which filter?'')))
     = Some [(''1R-0750'', ''Part: Oil Filter'', ''keeps contaminants out'')]"
  by (simp add: parse_suggestions suggestion_of_def part_line_def part_re_def re_simps m_eval
      trim_simps)

lemma exec_part_line:
  assumes "suf = [] \<or> (\<exists>t. suf = CHR 0x0A # t)"
  shows "\<exists>c. exec_here part_re (part_line @ suf) = Some (c, suf)
     \<and> c 1 = Some ''Oil Filter '' \<and> c 2 = Some ''1R-0750'' \<and> c 3 = Some ''keeps contaminants out''"
  using assms
  by (auto simp add: part_line_def part_re_def re_simps m_eval)


lemma starts_with_i_prefix:
  "starts_with_i l s \<longleftrightarrow> prefix (map lowerChar l) (map lowerChar s)"
  by (induction l s rule: starts_with_i.induct) auto

lemma no_match_here:
  "\<not> starts_with_i ''Part:'' s \<Longrightarrow> exec_here part_re s = None"
  by (simp add: part_re_def exec_here_def seqs_def m_lit_i m.simps(3))

lemma no_occurrence_here:
  assumes "\<not> str_includes (toLowerCase s) ''part:''"
  shows "\<not> starts_with_i ''Part:'' s"
proof
  assume "starts_with_i ''Part:'' s"
  then have "prefix ''part:'' (toLowerCase s)"
    by (simp add: starts_with_i_prefix toLowerCase_def lowerChar_def)
  with assms show False by (cases s) (simp_all add: toLowerCase_def)
qed

lemma no_straddle:
  assumes "starts_with_i ''Part:'' (xs @ part_line @ suf)" and "xs \<noteq> []"
  shows "prefix ''part:'' (toLowerCase xs)"
proof -
  from assms(2) obtain a xs1 where 1: "xs = a # xs1" by (cases xs) auto
  show ?thesis
  proof (cases xs1)
    case Nil
    with assms(1) 1 show ?thesis
      by (simp add: part_line_def lowerChar_def split: if_splits)
  next
    case (Cons b xs2)
    note 2 = this
    show ?thesis
    proof (cases xs2)
      case Nil
      with assms(1) 1 2 show ?thesis
        by (simp add: part_line_def lowerChar_def split: if_splits)
    next
      case (Cons c xs3)
      note 3 = this
      show ?thesis
      proof (cases xs3)
        case Nil
        with assms(1) 1 2 3 show ?thesis
          by (simp add: part_line_def lowerChar_def split: if_splits)
      next
        case (Cons d xs4)
        note 4 = this
        show ?thesis
        proof (cases xs4)
          case Nil
          with assms(1) 1 2 3 4 show ?thesis
            by (simp add: part_line_def lowerChar_def split: if_splits)
        next
          case (Cons e xs5)
          with assms(1) 1 2 3 4 have "starts_with_i ''Part:'' (a # b # c # d # e # [])"
            by (simp split: if_splits)
          then have "prefix ''part:'' (toLowerCase [a, b, c, d, e])"
            by (simp add: starts_with_i_prefix toLowerCase_def lowerChar_def)
          with 1 2 3 4 Cons show ?thesis by (simp add: toLowerCase_def)
        qed
      qed
    qed
  qed
qed

lemma skip_before:
  assumes "\<not> str_includes (toLowerCase pre) ''part:''"
  shows "match_all_from part_re 0 (pre @ part_line @ suf)
    = match_all_from part_re 0 (part_line @ suf)"
  using assms
proof (induction pre)
  case Nil
  show ?case by simp
next
  case (Cons x pre)
  from Cons.prems have here: "\<not> prefix ''part:'' (toLowerCase (x # pre))"
    and rest: "\<not> str_includes (toLowerCase pre) ''part:''"
    by (simp_all add: toLowerCase_def)
  from here have "\<not> starts_with_i ''Part:'' ((x # pre) @ part_line @ suf)"
    using no_straddle [of "x # pre" suf] by blast
  then have "exec_here part_re (x # pre @ part_line @ suf) = None"
    by (simp add: no_match_here)
  then show ?case by (simp add: Cons.IH [OF rest])
qed

lemma skip_matched:
  "match_all_from r (length xs) (xs @ ys) = match_all_from r 0 ys"
  by (induction xs) simp_all

lemma nothing_after:
  assumes "\<not> str_includes (toLowerCase suf) ''part:''"
  shows "match_all_from part_re 0 suf = []"
  using assms
proof (induction suf)
  case Nil
  have "exec_here part_re [] = None" by (rule no_match_here) simp
  then show ?case by simp
next
  case (Cons x suf)
  from Cons.prems have rest: "\<not> str_includes (toLowerCase suf) ''part:''"
    by (simp add: toLowerCase_def)
  from Cons.prems have "exec_here part_re (x # suf) = None"
    by (intro no_match_here no_occurrence_here)
  then show ?case by (simp add: Cons.IH [OF rest])
qed

lemma match_all_part_line:
  assumes "\<not> str_includes (toLowerCase pre) ''part:''"
    and "\<not> str_includes (toLowerCase suf) ''part:''"
    and "suf = [] \<or> (\<exists>t. suf = CHR 0x0A # t)"
  shows "match_all part_re (pre @ part_line @ suf) = [part_line]"
proof -
  from exec_part_line [OF assms(3)] obtain c where
    ex: "exec_here part_re (part_line @ suf) = Some (c, suf)" by blast
  obtain x t where xt: "part_line = x # t" by (cases part_line) (simp_all add: part_line_def)
  have "match_all_from part_re 0 (part_line @ suf)
      = part_line # match_all_from part_re (length t) (t @ suf)"
    using ex unfolding xt by simp
  also have "match_all_from part_re (length t) (t @ suf) = []"
    by (simp add: skip_matched nothing_after [OF assms(2)])
  finally show ?thesis
    by (simp add: match_all_def skip_before [OF assms(1)])
qed

lemma suggestion_of_part_line:
  "partNumber (suggestion_of rnd request i part_line) = ''1R-0750''"
  "PartSuggestion.name (suggestion_of rnd request i part_line) = ''Oil Filter''"
  "reasonForSuggestion (suggestion_of rnd request i part_line) = ''keeps contaminants out''"
proof -
  from exec_part_line [of "[]"] obtain c where
    ex: "exec_here part_re part_line = Some (c, [])"
    and c: "c 1 = Some ''Oil Filter ''" "c 2 = Some ''1R-0750''"
      "c 3 = Some ''keeps contaminants out''"
    by auto
  obtain x t where xt: "part_line = x # t" by (cases part_line) (simp_all add: part_line_def)
  have mf: "match_first part_re part_line = Some (part_line, c)"
    using ex unfolding xt by simp
  show "partNumber (suggestion_of rnd request i part_line) = ''1R-0750''"
    "PartSuggestion.name (suggestion_of rnd request i part_line) = ''Oil Filter''"
    "reasonForSuggestion (suggestion_of rnd request i part_line) = ''keeps contaminants out''"
    using c by (simp_all add: suggestion_of_def mf trim_simps)
qed

text \<open>
  Claim C9, as amended. Let the raw text contain the part line, followed by the end of
  the text or by a line feed, and let \<^verbatim>\<open>part:\<close> occur nowhere else in the text, in
  whatever letter case. Then the parser extracts exactly one suggestion, with part
  number \<^verbatim>\<open>1R-0750\<close>, name \<^verbatim>\<open>Oil Filter\<close> and reason \<^verbatim>\<open>keeps contaminants out\<close>.
\<close>

theorem part_line_extracted:
  assumes "\<not> str_includes (toLowerCase pre) ''part:''"
    and "\<not> str_includes (toLowerCase suf) ''part:''"
    and "suf = [] \<or> (\<exists>t. suf = CHR 0x0A # t)"
  shows "\<exists>s. suggestions (parseAIResponse rnd (pre @ part_line @ suf) request) = Some [s]
    \<and> partNumber s = ''1R-0750'' \<and> PartSuggestion.name s = ''Oil Filter''
    \<and> reasonForSuggestion s = ''keeps contaminants out''"
  by (simp add: parse_suggestions match_all_part_line [OF assms] suggestion_of_part_line)

theorem part_line_extracted_witness:
  "\<exists>s. suggestions (parseAIResponse (\<lambda>j. 1 / 2)
          (''Try this:\<newline>'' @ part_line @ ''\<newline>Thanks.'') (plain_request ''Which filter?''))
        = Some [s]
    \<and> partNumber s = ''1R-0750'' \<and> PartSuggestion.name s = ''Oil Filter''
    \<and> reasonForSuggestion s = ''keeps contaminants out''"
proof -
  have h1: "\<not> str_includes (toLowerCase ''Try this:\<newline>'') ''part:''"
    by (simp add: toLowerCase_def lowerChar_def)
  have h2: "\<not> str_includes (toLowerCase ''\<newline>Thanks.'') ''part:''"
    by (simp add: toLowerCase_def lowerChar_def)
  have h3: "''\<newline>Thanks.'' = [] \<or> (\<exists>t. ''\<newline>Thanks.'' = CHR 0x0A # t)"
    by simp
  from part_line_extracted [OF h1 h2 h3] show ?thesis .
qed

end
